theory Spec2Isabelle
  imports Main
begin

section \<open>JavaScript strings\<close>

text \<open>
  A JavaScript string is a sequence of UTF-16 code units, and \<open>length\<close>, \<open>includes\<close> (here \<open>js_includes\<close>),
  \<open>trim\<close> and the regular expressions of the parser all work on code units. The texts
  of the parser are not ASCII (the a-acute of "paginas", the c-cedilla of "publicacao", the marks U+200E and U+200F),
  so a string is a list of code units, each a natural number.
\<close>

type_synonym jschar = nat
type_synonym jsstring = "nat list"

definition str :: "string \<Rightarrow> jsstring" where
  "str s = map of_char s"

text \<open>
  Case mapping. The model is exact for the code units of Basic Latin and Latin-1
  Supplement (U+0000 to U+00FF) and takes every other code unit as caseless.
  \<open>canonicalize\<close> is the comparison key of a regular expression with the flag \<open>i\<close>
  (the upper-case form when that is a single code unit); \<open>upper_cu\<close> and \<open>lower_cu\<close>
  are \<open>toUpperCase\<close> and \<open>toLowerCase\<close> on one code unit (U+00DF upper-cases to "SS").
\<close>

definition canonicalize :: "jschar \<Rightarrow> jschar" where
  "canonicalize c =
     (if 97 \<le> c \<and> c \<le> 122 then c - 32
      else if 224 \<le> c \<and> c \<le> 254 \<and> c \<noteq> 247 then c - 32
      else if c = 255 then 376
      else if c = 181 then 924
      else c)"

definition upper_cu :: "jschar \<Rightarrow> jsstring" where
  "upper_cu c = (if c = 223 then [83, 83] else [canonicalize c])"

definition lower_cu :: "jschar \<Rightarrow> jschar" where
  "lower_cu c =
     (if 65 \<le> c \<and> c \<le> 90 then c + 32
      else if 192 \<le> c \<and> c \<le> 222 \<and> c \<noteq> 215 then c + 32
      else c)"

definition toUpperCase :: "jsstring \<Rightarrow> jsstring" where
  "toUpperCase s = concat (map upper_cu s)"

definition toLowerCase :: "jsstring \<Rightarrow> jsstring" where
  "toLowerCase s = map lower_cu s"

text \<open>White space and line terminators: what \<open>trim\<close> removes and \<open>\s\<close> matches.
  The marks U+200E (8206) and U+200F (8207) are not among them.\<close>

definition is_space :: "jschar \<Rightarrow> bool" where
  "is_space c \<longleftrightarrow>
     (9 \<le> c \<and> c \<le> 13) \<or> c = 32 \<or> c = 160 \<or> c = 5760 \<or> (8192 \<le> c \<and> c \<le> 8202)
     \<or> c = 8232 \<or> c = 8233 \<or> c = 8239 \<or> c = 8287 \<or> c = 12288 \<or> c = 65279"

definition is_digit :: "jschar \<Rightarrow> bool" where
  "is_digit c \<longleftrightarrow> 48 \<le> c \<and> c \<le> 57"

text \<open>The word characters of \<open>\b\<close>: \<open>[A-Za-z0-9_]\<close>.\<close>

definition is_word :: "jschar \<Rightarrow> bool" where
  "is_word c \<longleftrightarrow> (65 \<le> c \<and> c \<le> 90) \<or> (97 \<le> c \<and> c \<le> 122) \<or> is_digit c \<or> c = 95"

definition trim :: "jsstring \<Rightarrow> jsstring" where
  "trim s = rev (dropWhile is_space (rev (dropWhile is_space s)))"

definition startsWith :: "jsstring \<Rightarrow> jsstring \<Rightarrow> bool" where
  "startsWith s t \<longleftrightarrow> take (length t) s = t"

fun js_includes :: "jsstring \<Rightarrow> jsstring \<Rightarrow> bool" where
  "js_includes [] t = (t = [])"
| "js_includes (x # xs) t = (startsWith (x # xs) t \<or> js_includes xs t)"

text \<open>\<open>s.split(' ')\<close> and \<open>ws.join(' ')\<close>.\<close>

fun split_space :: "jsstring \<Rightarrow> jsstring list" where
  "split_space [] = [[]]"
| "split_space (x # xs) =
     (if x = 32 then [] # split_space xs
      else (case split_space xs of [] \<Rightarrow> [[x]] | w # ws \<Rightarrow> (x # w) # ws))"

fun join_space :: "jsstring list \<Rightarrow> jsstring" where
  "join_space [] = []"
| "join_space [w] = w"
| "join_space (w # ws) = w @ 32 # join_space ws"

text \<open>\<open>s.padStart(2, '0')\<close>.\<close>

definition padStart2 :: "jsstring \<Rightarrow> jsstring" where
  "padStart2 s = replicate (2 - length s) 48 @ s"

text \<open>A string is truthy when it is not empty; \<open>undefined\<close> is \<open>None\<close>.\<close>

definition truthy :: "jsstring option \<Rightarrow> bool" where
  "truthy v \<longleftrightarrow> (case v of None \<Rightarrow> False | Some s \<Rightarrow> s \<noteq> [])"

section \<open>Regular expressions\<close>

text \<open>
  The fragment of JavaScript regular expressions that the parser uses: literal code
  units, character classes (with ranges, \<open>\d\<close> and \<open>\s\<close>, possibly negated),
  quantifiers on a class (greedy or lazy, with a lower and an optional upper bound),
  sequence, alternation, capturing groups, \<open>\b\<close>, \<open>^\<close> and \<open>$\<close> (without the flag
  \<open>m\<close>), all with or without the flag \<open>i\<close>. There is no back-reference.
\<close>

datatype citem = CChar jschar | CRange jschar jschar | CDigit | CSpace

type_synonym cclass = "bool \<times> citem list"

datatype rx =
    Cls cclass
  | Rep cclass nat "nat option" bool
  | Eps
  | Seq rx rx
  | Alt rx rx
  | Grp nat rx
  | WordB
  | Bos
  | Eos

text \<open>
  With the flag \<open>i\<close> a code unit is in a class when its canonical form is that of a
  member of the class. Digits and white space are their own canonical forms and those
  of no other code unit, so \<open>\d\<close> and \<open>\s\<close> need no canonical form.
\<close>

fun item_has :: "bool \<Rightarrow> jschar \<Rightarrow> citem \<Rightarrow> bool" where
  "item_has ic x (CChar c) = (if ic then canonicalize x = canonicalize c else x = c)"
| "item_has ic x (CRange lo hi) =
     (if ic then list_ex (\<lambda>m. canonicalize m = canonicalize x) [lo..<Suc hi]
      else lo \<le> x \<and> x \<le> hi)"
| "item_has ic x CDigit = is_digit x"
| "item_has ic x CSpace = is_space x"

definition in_class :: "bool \<Rightarrow> cclass \<Rightarrow> jschar \<Rightarrow> bool" where
  "in_class ic cl x = (fst cl \<noteq> list_ex (item_has ic x) (snd cl))"

text \<open>The number of leading code units in the class, at most \<open>n\<close> of them.\<close>

fun run :: "(jschar \<Rightarrow> bool) \<Rightarrow> nat \<Rightarrow> jsstring \<Rightarrow> nat" where
  "run P 0 xs = 0"
| "run P (Suc n) [] = 0"
| "run P (Suc n) (x # xs) = (if P x then Suc (run P n xs) else 0)"

text \<open>
  A matcher state is the code unit before the current position (for \<open>\b\<close> and \<open>^\<close>),
  the rest of the input, and the captures so far, latest first. \<open>ms\<close> returns the
  states in which a match of the expression can end, in the order in which a
  backtracking matcher tries them: a greedy quantifier the longest run first, a lazy
  one the shortest, an alternation its left branch first.
\<close>

type_synonym captures = "(nat \<times> jsstring) list"
type_synonym mstate = "jschar option \<times> jsstring \<times> captures"

definition advance :: "jschar option \<Rightarrow> jsstring \<Rightarrow> nat \<Rightarrow> jschar option" where
  "advance p xs k = (if k = 0 then p else Some (xs ! (k - 1)))"

definition at_word :: "jschar option \<Rightarrow> bool" where
  "at_word p = (case p of None \<Rightarrow> False | Some c \<Rightarrow> is_word c)"

definition next_cu :: "jsstring \<Rightarrow> jschar option" where
  "next_cu xs = (case xs of [] \<Rightarrow> None | x # _ \<Rightarrow> Some x)"

fun ms :: "bool \<Rightarrow> rx \<Rightarrow> mstate \<Rightarrow> mstate list" where
  "ms ic (Cls cl) (p, xs, c) =
     (case xs of [] \<Rightarrow> [] | x # xs' \<Rightarrow> if in_class ic cl x then [(Some x, xs', c)] else [])"
| "ms ic (Rep cl lo hi greedy) (p, xs, c) =
     (let n = run (in_class ic cl) (case hi of None \<Rightarrow> length xs | Some h \<Rightarrow> h) xs;
          counts = (if greedy then rev [lo..<Suc n] else [lo..<Suc n])
      in map (\<lambda>k. (advance p xs k, drop k xs, c)) counts)"
| "ms ic Eps st = [st]"
| "ms ic (Seq a b) st = concat (map (ms ic b) (ms ic a st))"
| "ms ic (Alt a b) st = ms ic a st @ ms ic b st"
| "ms ic (Grp g r) (p, xs, c) =
     map (\<lambda>(p', xs', c'). (p', xs', (g, take (length xs - length xs') xs) # c'))
       (ms ic r (p, xs, c))"
| "ms ic WordB (p, xs, c) = (if at_word p \<noteq> at_word (next_cu xs) then [(p, xs, c)] else [])"
| "ms ic Bos (p, xs, c) = (if p = None then [(p, xs, c)] else [])"
| "ms ic Eos (p, xs, c) = (if xs = [] then [(p, xs, c)] else [])"

text \<open>The match that starts at the current position, if there is one: its captures.\<close>

definition match_here :: "bool \<Rightarrow> rx \<Rightarrow> jschar option \<Rightarrow> jsstring \<Rightarrow> captures option" where
  "match_here ic r p xs =
     (case ms ic r (p, xs, []) of [] \<Rightarrow> None | (p', xs', c') # _ \<Rightarrow> Some c')"

text \<open>\<open>s.match(r)\<close> for an expression without the flag \<open>g\<close>: the match at the leftmost
  position that has one.\<close>

fun search :: "bool \<Rightarrow> rx \<Rightarrow> jschar option \<Rightarrow> jsstring \<Rightarrow> captures option" where
  "search ic r p [] = match_here ic r p []"
| "search ic r p (x # xs) =
     (case match_here ic r p (x # xs) of
        Some m \<Rightarrow> Some m
      | None \<Rightarrow> search ic r (Some x) xs)"

definition rx_match :: "bool \<Rightarrow> rx \<Rightarrow> jsstring \<Rightarrow> captures option" where
  "rx_match ic r s = search ic r None s"

definition rx_test :: "bool \<Rightarrow> rx \<Rightarrow> jsstring \<Rightarrow> bool" where
  "rx_test ic r s \<longleftrightarrow> rx_match ic r s \<noteq> None"

definition group :: "captures \<Rightarrow> nat \<Rightarrow> jsstring option" where
  "group m g = map_of m g"

text \<open>Writing expressions: a literal text, a class item from a character, a sequence.\<close>

definition cc :: "char \<Rightarrow> citem" where
  "cc ch = CChar (of_char ch)"

definition cr :: "char \<Rightarrow> char \<Rightarrow> citem" where
  "cr a b = CRange (of_char a) (of_char b)"

definition lit :: "jsstring \<Rightarrow> rx list" where
  "lit s = map (\<lambda>c. Cls (False, [CChar c])) s"

definition seqs :: "rx list \<Rightarrow> rx" where
  "seqs rs = foldr Seq rs Eps"

definition plus :: "cclass \<Rightarrow> rx" where
  "plus cl = Rep cl 1 None True"

definition star :: "cclass \<Rightarrow> rx" where
  "star cl = Rep cl 0 None True"

definition digit :: cclass where
  "digit = (False, [CDigit])"

definition space :: cclass where
  "space = (False, [CSpace])"

fun alts :: "rx list \<Rightarrow> rx" where
  "alts [] = Eps"
| "alts [r] = r"
| "alts (r # rs) = Alt r (alts rs)"

section \<open>The document and the record\<close>

text \<open>
  \<open>parseAmazonBook\<close> reads the page in two ways: as raw markup (\<open>html\<close>) and through
  the selector function \<open>$\<close> that \<open>cheerio.load(html)\<close> returns. The selector engine
  is a library, so a document carries the markup and the function from a selector to
  the elements it matches, in document order. An element has its text content and its
  attributes.
\<close>

record element =
  textContent :: jsstring
  attrs :: "string \<Rightarrow> jsstring option"

record document =
  html :: jsstring
  select :: "string \<Rightarrow> element list"

text \<open>\<open>$(sel).text()\<close> joins the texts of all matched elements; \<open>$(sel).attr(n)\<close>
  reads the attribute of the first one and is \<open>undefined\<close> on an empty selection.\<close>

definition text_of :: "element list \<Rightarrow> jsstring" where
  "text_of els = concat (map textContent els)"

definition attr_of :: "element list \<Rightarrow> string \<Rightarrow> jsstring option" where
  "attr_of els n = (case els of [] \<Rightarrow> None | e # _ \<Rightarrow> attrs e n)"

text \<open>The number that \<open>parseInt\<close> returns.\<close>

datatype number = NaN | Number nat

text \<open>\<open>bookData\<close>: an object whose keys are set one by one; a key that was never set
  is \<open>None\<close>.\<close>

record book =
  title :: "jsstring option"
  authors :: "jsstring list option"
  imageUrl :: "jsstring option"
  description :: "jsstring option"
  isbn10 :: "jsstring option"
  isbn :: "jsstring option"
  isbn13 :: "jsstring option"
  asin :: "jsstring option"
  publisher :: "jsstring option"
  publishedDate :: "jsstring option"
  pageCount :: "number option"
  language :: "jsstring option"
  categories :: "jsstring list option"

definition empty_book :: book where
  "empty_book = \<lparr>title = None, authors = None, imageUrl = None, description = None,
     isbn10 = None, isbn = None, isbn13 = None, asin = None, publisher = None,
     publishedDate = None, pageCount = None, language = None, categories = None\<rparr>"

text \<open>
  What can be thrown: the fetch itself fails, the response is not ok
  (\<open>throw new Error(`HTTP ${response.status}`)\<close>), or a method is called on the
  \<open>undefined\<close> that a group which took no part in the match leaves (a TypeError).
\<close>

datatype error = FetchError | HttpError nat | TypeError

definition bind_e :: "error + 'a \<Rightarrow> ('a \<Rightarrow> error + 'b) \<Rightarrow> error + 'b" where
  "bind_e v f = (case v of Inl e \<Rightarrow> Inl e | Inr x \<Rightarrow> f x)"

text \<open>\<open>m[g].method()\<close>: the capture, or a TypeError when it is \<open>undefined\<close>.\<close>

definition cap :: "captures \<Rightarrow> nat \<Rightarrow> error + jsstring" where
  "cap m g = (case group m g of None \<Rightarrow> Inl TypeError | Some s \<Rightarrow> Inr s)"

text \<open>\<open>a || b\<close> on strings that may be \<open>undefined\<close>.\<close>

definition js_or :: "jsstring option \<Rightarrow> jsstring option \<Rightarrow> jsstring option" where
  "js_or a b = (if truthy a then a else b)"

text \<open>\<open>`${v}`\<close> in a template literal.\<close>

definition tpl :: "jsstring option \<Rightarrow> jsstring" where
  "tpl v = (case v of None \<Rightarrow> str ''undefined'' | Some s \<Rightarrow> s)"

section \<open>parseAmazonBook (examples/nodejs-example.js)\<close>

text \<open>
  The function is modelled from the Node.js example, step by step and in its order.
  \<open>fetchBookData\<close> of the React example has the same code for the ISBN fields, the
  ASIN, the cover image, the three date patterns, the pages and the categories; the PHP
  and the Dart example have only the two Portuguese date patterns.
\<close>

subsection \<open>1. Title, 2. Authors\<close>

definition step_title :: "document \<Rightarrow> book \<Rightarrow> book" where
  \<open>step_title d b =
     (let t = trim (text_of (select d ''#productTitle, span[id="productTitle"]''))
      in if t \<noteq> [] then b\<lparr>title := Some t\<rparr> else b)\<close>

fun authors_each :: "element list \<Rightarrow> jsstring list \<Rightarrow> jsstring list" where
  "authors_each [] acc = acc"
| "authors_each (el # els) acc =
     (let author = trim (textContent el)
      in if author \<noteq> [] \<and> \<not> js_includes author (str ''('') \<and> author \<notin> set acc
         then authors_each els (acc @ [author])
         else authors_each els acc)"

definition step_authors :: "document \<Rightarrow> book \<Rightarrow> book" where
  "step_authors d b =
     (let as = authors_each (select d ''.author a.a-link-normal, .author .contributorNameID'') []
      in if length as > 0 then b\<lparr>authors := Some as\<rparr> else b)"

subsection \<open>3. Cover image\<close>

text \<open>
  \<open>JSON.parse\<close> followed by \<open>Object.keys\<close> is a parameter: \<open>json_keys s\<close> is the list
  of keys of the parsed value, or \<open>None\<close> when \<open>JSON.parse(s)\<close> throws.
\<close>

definition step_image :: "(jsstring \<Rightarrow> jsstring list option) \<Rightarrow> document \<Rightarrow> book \<Rightarrow> book" where
  "step_image json_keys d b =
     (let imgEl = select d ''#landingImage, #imgBlkFront, #ebooksImgBlkFront'';
          imgSrc = js_or (attr_of imgEl ''data-old-hires'')
                     (js_or (attr_of imgEl ''src'') (attr_of imgEl ''data-a-dynamic-image''))
      in case imgSrc of
           None \<Rightarrow> b
         | Some src \<Rightarrow>
             if src = [] then b
             else if startsWith src (str ''{'') then
               (case json_keys src of
                  Some urls \<Rightarrow>
                    (case urls of [] \<Rightarrow> b | u # _ \<Rightarrow> b\<lparr>imageUrl := Some u\<rparr>)
                | None \<Rightarrow> b\<lparr>imageUrl := Some src\<rparr>)
             else b\<lparr>imageUrl := Some src\<rparr>)"

subsection \<open>4. Description\<close>

definition descSelectors :: "string list" where
  "descSelectors =
     [''#bookDescription_feature_div noscript'',
      ''#bookDescription_feature_div .a-expander-content'',
      ''#feature-bullets ul.a-unordered-list'']"

fun desc_loop :: "document \<Rightarrow> string list \<Rightarrow> jsstring option" where
  "desc_loop d [] = None"
| "desc_loop d (selector # rest) =
     (let desc = trim (text_of (select d selector))
      in if desc \<noteq> [] \<and> length desc > 50 then Some desc else desc_loop d rest)"

definition step_description :: "document \<Rightarrow> book \<Rightarrow> book" where
  "step_description d b =
     (case desc_loop d descSelectors of None \<Rightarrow> b | Some desc \<Rightarrow> b\<lparr>description := Some desc\<rparr>)"

subsection \<open>The details text\<close>

definition detailsSelectors :: "string list" where
  "detailsSelectors =
     [''#detailBullets_feature_div'',
      ''#detail_bullets_id'',
      ''#productDetailsTable'',
      ''#detailBulletsWrapper_feature_div'',
      ''.detail-bullet-list'']"

definition details_text :: "document \<Rightarrow> jsstring" where
  "details_text d =
     foldl (\<lambda>detailsText selector.
              let t = text_of (select d selector)
              in if t \<noteq> [] then detailsText @ str '' '' @ t else detailsText)
       [] detailsSelectors"

subsection \<open>5. ISBN-10, 6. ISBN-13\<close>

text \<open>\<open>/ISBN-10[:\s]+([0-9X]{10})/i\<close> and \<open>/ISBN-13[:\s]+([0-9-]{13,17})/i\<close>.\<close>

definition isbn10_rx :: rx where
  "isbn10_rx =
     seqs (lit (str ''ISBN-10'') @
       [plus (False, [cc CHR '':'', CSpace]),
        Grp 1 (Rep (False, [cr CHR ''0'' CHR ''9'', cc CHR ''X'']) 10 (Some 10) True)])"

definition isbn13_rx :: rx where
  "isbn13_rx =
     seqs (lit (str ''ISBN-13'') @
       [plus (False, [cc CHR '':'', CSpace]),
        Grp 1 (Rep (False, [cr CHR ''0'' CHR ''9'', cc CHR ''-'']) 13 (Some 17) True)])"

definition step_isbn10 :: "jsstring \<Rightarrow> book \<Rightarrow> book" where
  "step_isbn10 detailsText b =
     (case rx_match True isbn10_rx detailsText of
        None \<Rightarrow> b
      | Some isbn10Match \<Rightarrow> b\<lparr>isbn10 := group isbn10Match 1, isbn := group isbn10Match 1\<rparr>)"

text \<open>\<open>isbn13Match[1].replace(/-/g, '')\<close>.\<close>

definition strip_hyphens :: "jsstring \<Rightarrow> jsstring" where
  "strip_hyphens s = filter (\<lambda>c. c \<noteq> 45) s"

definition step_isbn13 :: "jsstring \<Rightarrow> book \<Rightarrow> error + book" where
  "step_isbn13 detailsText b =
     (case rx_match True isbn13_rx detailsText of
        None \<Rightarrow> Inr b
      | Some isbn13Match \<Rightarrow>
          bind_e (cap isbn13Match 1) (\<lambda>g.
            let isbn13v = strip_hyphens g;
                b1 = b\<lparr>isbn13 := Some isbn13v\<rparr>
            in Inr (if \<not> truthy (isbn b1) then b1\<lparr>isbn := Some isbn13v\<rparr> else b1)))"

subsection \<open>7. ASIN\<close>

text \<open>\<open>/ASIN[:\s]+([A-Z0-9]{10})(?:\s|$)/i\<close> and \<open>/\bASIN[:\s]*([A-Z0-9]{10})\b/i\<close>.\<close>

definition alnum :: cclass where
  "alnum = (False, [cr CHR ''A'' CHR ''Z'', cr CHR ''0'' CHR ''9''])"

definition asinPatterns :: "rx list" where
  "asinPatterns =
     [seqs (lit (str ''ASIN'') @
        [plus (False, [cc CHR '':'', CSpace]), Grp 1 (Rep alnum 10 (Some 10) True),
         Alt (Cls space) Eos]),
      seqs ([WordB] @ lit (str ''ASIN'') @
        [star (False, [cc CHR '':'', CSpace]), Grp 1 (Rep alnum 10 (Some 10) True),
         WordB])]"

text \<open>\<open>/^[A-Z0-9]{10}$/\<close> and \<open>/^[A-Z]+$/\<close>, both without the flag \<open>i\<close>.\<close>

definition asin_shape_rx :: rx where
  "asin_shape_rx = seqs [Bos, Rep alnum 10 (Some 10) True, Eos]"

definition all_letters_rx :: rx where
  "all_letters_rx = seqs [Bos, plus (False, [cr CHR ''A'' CHR ''Z'']), Eos]"

definition asin_valid :: "jsstring \<Rightarrow> bool" where
  "asin_valid potentialAsin \<longleftrightarrow>
     rx_test False asin_shape_rx potentialAsin \<and> \<not> rx_test False all_letters_rx potentialAsin"

fun asin_loop :: "rx list \<Rightarrow> jsstring \<Rightarrow> jsstring option" where
  "asin_loop [] detailsText = None"
| "asin_loop (pattern # rest) detailsText =
     (case rx_match True pattern detailsText of
        None \<Rightarrow> asin_loop rest detailsText
      | Some asinMatch \<Rightarrow>
          (case group asinMatch 1 of
             None \<Rightarrow> asin_loop rest detailsText
           | Some g \<Rightarrow>
               if g = [] then asin_loop rest detailsText
               else let potentialAsin = toUpperCase g
                    in if asin_valid potentialAsin then Some potentialAsin
                       else asin_loop rest detailsText))"

definition step_asin :: "jsstring \<Rightarrow> book \<Rightarrow> book" where
  "step_asin detailsText b =
     (case asin_loop asinPatterns detailsText of
        None \<Rightarrow> b
      | Some a \<Rightarrow> b\<lparr>asin := Some a\<rparr>)"

subsection \<open>8. Publisher\<close>

text \<open>
  \<open>/editora\s+([a-z\<dots>\s&\-\.]+?)\s+data\s+da\s+publica\<dots>o/i\<close> and its three siblings; the
  class of the first three is \<open>a-z\<close>, U+00E0 to U+00FF, \<open>\s\<close>, \<open>&\<close>, \<open>-\<close>, \<open>.\<close>.
  Code units: c-cedilla 231, a-tilde 227, o-tilde 245.
\<close>

definition name_pt :: cclass where
  "name_pt = (False, [cr CHR ''a'' CHR ''z'', CRange 224 255, CSpace,
                      cc CHR ''&'', cc CHR ''-'', cc CHR ''.''])"

definition name_en :: cclass where
  "name_en = (False, [cr CHR ''a'' CHR ''z'', CSpace, cc CHR ''&'', cc CHR ''-'', cc CHR ''.''])"

definition publisherPatterns :: "rx list" where
  "publisherPatterns =
     [seqs (lit (str ''editora'') @ [plus space, Grp 1 (Rep name_pt 1 None False), plus space] @
            lit (str ''data'') @ [plus space] @ lit (str ''da'') @ [plus space] @
            lit (str ''publica'' @ [231, 227] @ str ''o'')),
      seqs (lit (str ''editora'') @ [plus space, Grp 1 (Rep name_pt 1 None False), plus space] @
            lit (str ''dimens'' @ [245] @ str ''es'')),
      seqs (lit (str ''editora'') @ [plus space, Grp 1 (Rep name_pt 1 None False), plus space,
            Alt (seqs (lit (str ''isbn''))) (seqs (lit (str ''asin'')))]),
      seqs (lit (str ''publisher'') @ [plus space, Grp 1 (Rep name_en 1 None False), plus space] @
            lit (str ''publication'') @ [plus space] @ lit (str ''date''))]"

text \<open>\<open>/^\d+$/\<close>.\<close>

definition all_digits_rx :: rx where
  "all_digits_rx = seqs [Bos, plus digit, Eos]"

text \<open>\<open>word.charAt(0).toUpperCase() + word.slice(1)\<close>.\<close>

definition capitalize :: "jsstring \<Rightarrow> jsstring" where
  "capitalize word = (case word of [] \<Rightarrow> [] | x # xs \<Rightarrow> upper_cu x @ xs)"

fun publisher_loop :: "rx list \<Rightarrow> jsstring \<Rightarrow> error + jsstring option" where
  "publisher_loop [] detailsText = Inr None"
| "publisher_loop (pattern # rest) detailsText =
     (case rx_match True pattern (toLowerCase detailsText) of
        None \<Rightarrow> publisher_loop rest detailsText
      | Some publisherMatch \<Rightarrow>
          bind_e (cap publisherMatch 1) (\<lambda>g.
            let pub = join_space (map capitalize (split_space (trim g)))
            in if length pub > 1 \<and> \<not> rx_test False all_digits_rx pub then Inr (Some pub)
               else publisher_loop rest detailsText))"

definition step_publisher :: "jsstring \<Rightarrow> book \<Rightarrow> error + book" where
  "step_publisher detailsText b =
     bind_e (publisher_loop publisherPatterns detailsText) (\<lambda>r.
       case r of None \<Rightarrow> Inr b | Some pub \<Rightarrow> Inr (b\<lparr>publisher := Some pub\<rparr>))"

subsection \<open>9. Publication date\<close>

definition months_pt :: "jsstring list" where
  "months_pt =
     [str ''janeiro'', str ''fevereiro'', str ''mar'' @ [231] @ str ''o'', str ''abril'',
      str ''maio'', str ''junho'', str ''julho'', str ''agosto'', str ''setembro'',
      str ''outubro'', str ''novembro'', str ''dezembro'']"

definition months_en :: "jsstring list" where
  "months_en =
     [str ''january'', str ''february'', str ''march'', str ''april'', str ''may'',
      str ''june'', str ''july'', str ''august'', str ''september'', str ''october'',
      str ''november'', str ''december'']"

definition two_digits :: "jsstring list" where
  "two_digits =
     [str ''01'', str ''02'', str ''03'', str ''04'', str ''05'', str ''06'',
      str ''07'', str ''08'', str ''09'', str ''10'', str ''11'', str ''12'']"

text \<open>The object \<open>months\<close>: the Portuguese names, then the English ones.\<close>

definition months :: "(jsstring \<times> jsstring) list" where
  "months = zip months_pt two_digits @ zip months_en two_digits"

datatype date_format = BrShort | BrLong | En

text \<open>
  \<open>datePatterns\<close>, three entries:
  \<open>/(\d{1,2})\s+(janeiro|\<dots>|dezembro)\s+(\d{4})/i\<close> with format \<open>br-short\<close>,
  \<open>/(\d{1,2})\s+de\s+(janeiro|\<dots>|dezembro)\s+de\s+(\d{4})/i\<close> with format \<open>br-long\<close>,
  \<open>/(january|\<dots>|december)\s+(\d{1,2}),?\s+(\d{4})/i\<close> with format \<open>en\<close>.
\<close>

definition month_alt :: "jsstring list \<Rightarrow> rx" where
  "month_alt names = alts (map (\<lambda>n. seqs (lit n)) names)"

definition datePatterns :: "(rx \<times> date_format) list" where
  "datePatterns =
     [(seqs [Grp 1 (Rep digit 1 (Some 2) True), plus space, Grp 2 (month_alt months_pt),
             plus space, Grp 3 (Rep digit 4 (Some 4) True)], BrShort),
      (seqs ([Grp 1 (Rep digit 1 (Some 2) True), plus space] @ lit (str ''de'') @
             [plus space, Grp 2 (month_alt months_pt), plus space] @ lit (str ''de'') @
             [plus space, Grp 3 (Rep digit 4 (Some 4) True)]), BrLong),
      (seqs [Grp 1 (month_alt months_en), plus space, Grp 2 (Rep digit 1 (Some 2) True),
             Rep (False, [cc CHR '','']) 0 (Some 1) True, plus space,
             Grp 3 (Rep digit 4 (Some 4) True)], En)]"

text \<open>\<open>`${year}-${month}-${day}`\<close> from a match, by the format of its pattern.\<close>

definition date_of_match :: "date_format \<Rightarrow> captures \<Rightarrow> error + jsstring" where
  "date_of_match fmt dateMatch =
     (case fmt of
        En \<Rightarrow>
          bind_e (cap dateMatch 1) (\<lambda>g1.
            let monthName = toLowerCase g1;
                month = js_or (map_of months monthName) (Some (str ''01''))
            in bind_e (cap dateMatch 2) (\<lambda>g2.
                 let day = padStart2 g2; year = group dateMatch 3
                 in Inr (tpl year @ str ''-'' @ tpl month @ str ''-'' @ day)))
      | _ \<Rightarrow>
          bind_e (cap dateMatch 1) (\<lambda>g1.
            let day = padStart2 g1
            in bind_e (cap dateMatch 2) (\<lambda>g2.
                 let monthName = toLowerCase g2;
                     month = js_or (map_of months monthName) (Some (str ''01''));
                     year = group dateMatch 3
                 in Inr (tpl year @ str ''-'' @ tpl month @ str ''-'' @ day))))"

fun date_loop :: "(rx \<times> date_format) list \<Rightarrow> jsstring \<Rightarrow> error + jsstring option" where
  "date_loop [] h = Inr None"
| "date_loop ((regex, fmt) # rest) h =
     (case rx_match True regex h of
        None \<Rightarrow> date_loop rest h
      | Some dateMatch \<Rightarrow> bind_e (date_of_match fmt dateMatch) (\<lambda>dt. Inr (Some dt)))"

definition step_date :: "jsstring \<Rightarrow> book \<Rightarrow> error + book" where
  "step_date h b =
     bind_e (date_loop datePatterns h) (\<lambda>r.
       case r of None \<Rightarrow> Inr b | Some dt \<Rightarrow> Inr (b\<lparr>publishedDate := Some dt\<rparr>))"

subsection \<open>10. Pages\<close>

text \<open>
  \<open>pagesPatterns\<close>: \<open>/(\d+)\s*p\<dots>ginas/i\<close>, \<open>/Comprimento[:\s]+(\d+)\s*p\<dots>ginas/i\<close>,
  \<open>/Length[:\s]+(\d+)\s*pages/i\<close> (a-acute is code unit 225).
\<close>

definition paginas :: jsstring where
  "paginas = str ''p'' @ [225] @ str ''ginas''"

definition pagesPatterns :: "rx list" where
  "pagesPatterns =
     [seqs ([Grp 1 (plus digit), star space] @ lit paginas),
      seqs (lit (str ''Comprimento'') @
            [plus (False, [cc CHR '':'', CSpace]), Grp 1 (plus digit), star space] @ lit paginas),
      seqs (lit (str ''Length'') @
            [plus (False, [cc CHR '':'', CSpace]), Grp 1 (plus digit), star space] @
            lit (str ''pages''))]"

text \<open>
  \<open>parseInt\<close>: white space is skipped, then the leading decimal digits are read; with
  no digit the result is \<open>NaN\<close>, as it is for \<open>undefined\<close>. (A sign or a \<open>0x\<close> prefix
  is not read: the argument is a capture of \<open>\d+\<close>. The number is not rounded to a
  double.)
\<close>

definition decimal :: "jsstring \<Rightarrow> nat" where
  "decimal ds = foldl (\<lambda>n c. 10 * n + (c - 48)) 0 ds"

definition parseInt :: "jsstring option \<Rightarrow> number" where
  "parseInt v =
     (case v of
        None \<Rightarrow> NaN
      | Some s \<Rightarrow>
          (let ds = takeWhile is_digit (dropWhile is_space s)
           in if ds = [] then NaN else Number (decimal ds)))"

fun pages_loop :: "rx list \<Rightarrow> jsstring \<Rightarrow> number option" where
  "pages_loop [] detailsText = None"
| "pages_loop (pattern # rest) detailsText =
     (case rx_match True pattern detailsText of
        None \<Rightarrow> pages_loop rest detailsText
      | Some pagesMatch \<Rightarrow> Some (parseInt (group pagesMatch 1)))"

definition step_pages :: "jsstring \<Rightarrow> book \<Rightarrow> book" where
  "step_pages detailsText b =
     (case pages_loop pagesPatterns detailsText of
        None \<Rightarrow> b
      | Some n \<Rightarrow> b\<lparr>pageCount := Some n\<rparr>)"

subsection \<open>11. Language\<close>

text \<open>\<open>/Idioma[:\s]+([^\n;]+)/i\<close> and \<open>/Language[:\s]+([^\n;]+)/i\<close>.\<close>

definition languagePatterns :: "rx list" where
  "languagePatterns =
     [seqs (lit (str ''Idioma'') @
            [plus (False, [cc CHR '':'', CSpace]), Grp 1 (plus (True, [CChar 10, cc CHR '';'']))]),
      seqs (lit (str ''Language'') @
            [plus (False, [cc CHR '':'', CSpace]), Grp 1 (plus (True, [CChar 10, cc CHR '';'']))])]"

text \<open>\<open>languageMap\<close>, in the order of its keys (e-circumflex 234, a-tilde 227).\<close>

definition languageMap :: "(jsstring \<times> jsstring) list" where
  "languageMap =
     [(str ''portugu'' @ [234] @ str ''s'', str ''pt-BR''),
      (str ''portuguese'', str ''pt-BR''),
      (str ''ingl'' @ [234] @ str ''s'', str ''en''),
      (str ''english'', str ''en''),
      (str ''espanhol'', str ''es''),
      (str ''spanish'', str ''es''),
      (str ''franc'' @ [234] @ str ''s'', str ''fr''),
      (str ''french'', str ''fr''),
      (str ''alem'' @ [227] @ str ''o'', str ''de''),
      (str ''german'', str ''de''),
      (str ''italiano'', str ''it''),
      (str ''italian'', str ''it'')]"

text \<open>The inner loop over \<open>Object.entries(languageMap)\<close>: the first key that the text
  includes.\<close>

fun language_entries :: "(jsstring \<times> jsstring) list \<Rightarrow> jsstring \<Rightarrow> jsstring option" where
  "language_entries [] langText = None"
| "language_entries ((key, val) # rest) langText =
     (if js_includes langText key then Some val else language_entries rest langText)"

text \<open>The outer loop stops when \<open>bookData.language\<close> is set and truthy.\<close>

fun language_loop :: "rx list \<Rightarrow> jsstring \<Rightarrow> error + jsstring option" where
  "language_loop [] detailsText = Inr None"
| "language_loop (pattern # rest) detailsText =
     (case rx_match True pattern detailsText of
        None \<Rightarrow> language_loop rest detailsText
      | Some langMatch \<Rightarrow>
          bind_e (cap langMatch 1) (\<lambda>g.
            let langText = toLowerCase (trim g)
            in case language_entries languageMap langText of
                 None \<Rightarrow> language_loop rest detailsText
               | Some v \<Rightarrow>
                   if truthy (Some v) then Inr (Some v)
                   else bind_e (language_loop rest detailsText) (\<lambda>r.
                          Inr (case r of None \<Rightarrow> Some v | Some w \<Rightarrow> Some w))))"

definition step_language :: "jsstring \<Rightarrow> book \<Rightarrow> error + book" where
  "step_language detailsText b =
     bind_e (language_loop languagePatterns detailsText) (\<lambda>r.
       case r of None \<Rightarrow> Inr b | Some v \<Rightarrow> Inr (b\<lparr>language := Some v\<rparr>))"

subsection \<open>12. Categories\<close>

text \<open>\<open>categoryMap\<close>, in the order of its keys (c-cedilla 231, a-tilde 227,
  e-acute 233).\<close>

definition categoryMap :: "(jsstring \<times> jsstring) list" where
  "categoryMap =
     [(str ''fic'' @ [231, 227] @ str ''o'', str ''Fiction''),
      (str ''fiction'', str ''Fiction''),
      (str ''romance'', str ''Romance''),
      (str ''fantasia'', str ''Fantasy''),
      (str ''fantasy'', str ''Fantasy''),
      (str ''mist'' @ [233] @ str ''rio'', str ''Mystery''),
      (str ''mystery'', str ''Mystery''),
      (str ''terror'', str ''Horror''),
      (str ''horror'', str ''Horror''),
      (str ''suspense'', str ''Thriller''),
      (str ''thriller'', str ''Thriller'')]"

text \<open>The inner loop: every entry whose key the text includes adds its value, unless
  the value is already there.\<close>

fun category_entries ::
  "(jsstring \<times> jsstring) list \<Rightarrow> jsstring \<Rightarrow> jsstring list \<Rightarrow> jsstring list" where
  "category_entries [] normalized cats = cats"
| "category_entries ((key, val) # rest) normalized cats =
     (if js_includes normalized key \<and> val \<notin> set cats
      then category_entries rest normalized (cats @ [val])
      else category_entries rest normalized cats)"

definition category_accepts :: "jsstring \<Rightarrow> bool" where
  "category_accepts t \<longleftrightarrow>
     t \<noteq> [] \<and> length t > 3 \<and> length t < 50 \<and>
     \<not> js_includes t (str ''Livros'') \<and>
     \<not> js_includes (toLowerCase t) (str ''home'') \<and>
     \<not> js_includes (toLowerCase t) (str ''kindle'') \<and>
     \<not> js_includes (toLowerCase t) (str ''store'')"

fun categories_each :: "element list \<Rightarrow> jsstring list \<Rightarrow> jsstring list" where
  "categories_each [] cats = cats"
| "categories_each (el # els) cats =
     (let t = trim (textContent el)
      in if category_accepts t
         then categories_each els (category_entries categoryMap (toLowerCase t) cats)
         else categories_each els cats)"

definition step_categories :: "document \<Rightarrow> book \<Rightarrow> book" where
  "step_categories d b =
     (let cats = categories_each
                   (select d ''#wayfinding-breadcrumbs_feature_div a, .a-breadcrumb a'') []
      in if length cats > 0 then b\<lparr>categories := Some cats\<rparr> else b)"

subsection \<open>The whole extraction\<close>

definition extract_book :: "(jsstring \<Rightarrow> jsstring list option) \<Rightarrow> document \<Rightarrow> error + book" where
  "extract_book json_keys d =
     (let b1 = step_title d empty_book;
          b2 = step_authors d b1;
          b3 = step_image json_keys d b2;
          b4 = step_description d b3;
          detailsText = details_text d;
          b5 = step_isbn10 detailsText b4
      in bind_e (step_isbn13 detailsText b5) (\<lambda>b6.
         bind_e (step_publisher detailsText (step_asin detailsText b6)) (\<lambda>b8.
         bind_e (step_date (html d) b8) (\<lambda>b9.
         bind_e (step_language detailsText (step_pages detailsText b9)) (\<lambda>b11.
         Inr (step_categories d b11))))))"

text \<open>
  The response of \<open>fetch\<close>: the promise is rejected, or there is a response with its
  \<open>ok\<close> flag, its status and its body. \<open>load\<close> is \<open>cheerio.load\<close>. Whatever is thrown
  inside the \<open>try\<close> is logged and thrown again.
\<close>

datatype response = Rejected | Response bool nat jsstring

definition parseAmazonBook ::
  "(jsstring \<Rightarrow> string \<Rightarrow> element list) \<Rightarrow> (jsstring \<Rightarrow> jsstring list option) \<Rightarrow> response
     \<Rightarrow> error + book" where
  "parseAmazonBook load json_keys r =
     (case r of
        Rejected \<Rightarrow> Inl FetchError
      | Response ok status body \<Rightarrow>
          if \<not> ok then Inl (HttpError status)
          else extract_book json_keys \<lparr>html = body, select = load body\<rparr>)"

section \<open>Variants and example documents\<close>

text \<open>
  The fourth date format of the README (section 9, "Formatos suportados", item 3,
  "Num\<dots>rico"): \<open>/(\d{1,2})[\/\-\.](\d{1,2})[\/\-\.](\d{4})/\<close>. No example of
  the repository has it in its \<open>datePatterns\<close>.
\<close>

definition numeric_date_rx :: rx where
  "numeric_date_rx =
     seqs [Grp 1 (Rep digit 1 (Some 2) True),
           Cls (False, [cc CHR ''/'', cc CHR ''-'', cc CHR ''.'']),
           Grp 2 (Rep digit 1 (Some 2) True),
           Cls (False, [cc CHR ''/'', cc CHR ''-'', cc CHR ''.'']),
           Grp 3 (Rep digit 4 (Some 4) True)]"

text \<open>\<open>pagesPatterns\<close> with its second entry removed.\<close>

definition pagesPatterns_without_second :: "rx list" where
  "pagesPatterns_without_second =
     [seqs ([Grp 1 (plus digit), star space] @ lit paginas),
      seqs (lit (str ''Length'') @
            [plus (False, [cc CHR '':'', CSpace]), Grp 1 (plus digit), star space] @
            lit (str ''pages''))]"


text \<open>Documents to run the parser on: an element with a text and no attribute, a page
  on which no selector matches, and a page whose only matched element is the first
  details container.\<close>

definition elem :: "jsstring \<Rightarrow> element" where
  "elem t = \<lparr>textContent = t, attrs = (\<lambda>n. None)\<rparr>"

definition blank_page :: "jsstring \<Rightarrow> document" where
  "blank_page h = \<lparr>html = h, select = (\<lambda>sel. [])\<rparr>"

definition details_page :: "jsstring \<Rightarrow> document" where
  "details_page t =
     \<lparr>html = t,
      select = (\<lambda>sel. if sel = ''#detailBullets_feature_div'' then [elem t] else [])\<rparr>"

text \<open>A page whose only matched element is the cover image, with the attribute
  \<open>data-a-dynamic-image\<close> alone; a page whose only matched elements are breadcrumb
  anchors with the given texts.\<close>

definition image_page :: "jsstring \<Rightarrow> document" where
  "image_page v =
     \<lparr>html = [],
      select = (\<lambda>sel. if sel = ''#landingImage, #imgBlkFront, #ebooksImgBlkFront''
                     then [\<lparr>textContent = [],
                            attrs = (\<lambda>n. if n = ''data-a-dynamic-image'' then Some v else None)\<rparr>]
                     else [])\<rparr>"

definition breadcrumb_page :: "jsstring list \<Rightarrow> document" where
  "breadcrumb_page ts =
     \<lparr>html = [],
      select = (\<lambda>sel. if sel = ''#wayfinding-breadcrumbs_feature_div a, .a-breadcrumb a''
                     then map elem ts else [])\<rparr>"

text \<open>Two stand-ins for \<open>JSON.parse\<close> with \<open>Object.keys\<close>: one for which every
  text fails to parse, one that parses the text \<open>{}\<close> alone, to the object without
  keys.\<close>

definition no_json :: "jsstring \<Rightarrow> jsstring list option" where
  "no_json s = None"

definition json_empty_object :: "jsstring \<Rightarrow> jsstring list option" where
  "json_empty_object s = (if s = str ''{}'' then Some [] else None)"

section \<open>Notions for the proofs\<close>

text \<open>The code unit before the position that follows the text \<open>t\<close>.\<close>

definition last_cu :: "jschar option \<Rightarrow> jsstring \<Rightarrow> jschar option" where
  "last_cu p t = (if t = [] then p else Some (last t))"

text \<open>An expression without a capturing group; an expression every match of which
  sets the group \<open>g\<close>.\<close>

fun no_grp :: "rx \<Rightarrow> bool" where
  "no_grp (Grp g r) = False"
| "no_grp (Seq a b) = (no_grp a \<and> no_grp b)"
| "no_grp (Alt a b) = (no_grp a \<and> no_grp b)"
| "no_grp r = True"

fun binds :: "nat \<Rightarrow> rx \<Rightarrow> bool" where
  "binds g (Grp h r) = (g = h \<or> binds g r)"
| "binds g (Seq a b) = (binds g a \<or> binds g b)"
| "binds g (Alt a b) = (binds g a \<and> binds g b)"
| "binds g r = False"

text \<open>No match of the expression starts inside \<open>pre\<close>, in the text \<open>pre @ rest\<close>.\<close>

fun no_match_before ::
  "bool \<Rightarrow> rx \<Rightarrow> jschar option \<Rightarrow> jsstring \<Rightarrow> jsstring \<Rightarrow> bool" where
  "no_match_before ic r p [] rest = True"
| "no_match_before ic r p (x # pre) rest =
     (match_here ic r p (x # pre @ rest) = None \<and> no_match_before ic r (Some x) pre rest)"


fun lang :: "bool \<Rightarrow> rx \<Rightarrow> jsstring \<Rightarrow> bool" where
  "lang ic (Cls cl) t = (case t of [x] \<Rightarrow> in_class ic cl x | _ \<Rightarrow> False)"
| "lang ic (Rep cl lo hi greedy) t =
     (lo \<le> length t \<and> (case hi of None \<Rightarrow> True | Some h \<Rightarrow> length t \<le> h) \<and>
      list_all (in_class ic cl) t)"
| "lang ic (Seq a b) t =
     list_ex (\<lambda>k. lang ic a (take k t) \<and> lang ic b (drop k t)) [0..<Suc (length t)]"
| "lang ic (Alt a b) t = (lang ic a t \<or> lang ic b t)"
| "lang ic (Grp g r) t = lang ic r t"
| "lang ic r t = (t = [])"

text \<open>The value that each step of the parser finds, on its own.\<close>

definition resolved :: "error + 'a option \<Rightarrow> 'a option" where
  "resolved v = (case v of Inl e \<Rightarrow> None | Inr r \<Rightarrow> r)"

definition title_of :: "document \<Rightarrow> jsstring option" where
  "title_of d = title (step_title d empty_book)"

definition authors_of :: "document \<Rightarrow> jsstring list option" where
  "authors_of d = authors (step_authors d empty_book)"

definition image_of :: "(jsstring \<Rightarrow> jsstring list option) \<Rightarrow> document \<Rightarrow> jsstring option" where
  "image_of json_keys d = imageUrl (step_image json_keys d empty_book)"

definition description_of :: "document \<Rightarrow> jsstring option" where
  "description_of d = desc_loop d descSelectors"

definition isbn10_of :: "jsstring \<Rightarrow> jsstring option" where
  "isbn10_of t = isbn10 (step_isbn10 t empty_book)"

definition isbn13_of :: "jsstring \<Rightarrow> jsstring option" where
  "isbn13_of t = (case step_isbn13 t empty_book of Inl e \<Rightarrow> None | Inr b \<Rightarrow> isbn13 b)"

definition asin_of :: "jsstring \<Rightarrow> jsstring option" where
  "asin_of t = asin_loop asinPatterns t"

definition publisher_of :: "jsstring \<Rightarrow> jsstring option" where
  "publisher_of t = resolved (publisher_loop publisherPatterns t)"

definition date_of :: "jsstring \<Rightarrow> jsstring option" where
  "date_of h = resolved (date_loop datePatterns h)"

definition pages_of :: "jsstring \<Rightarrow> number option" where
  "pages_of t = pages_loop pagesPatterns t"

definition language_of :: "jsstring \<Rightarrow> jsstring option" where
  "language_of t = resolved (language_loop languagePatterns t)"

definition categories_of :: "document \<Rightarrow> jsstring list option" where
  "categories_of d = categories (step_categories d empty_book)"

section \<open>Facts about the matcher\<close>

lemma run_numeral [simp]:
  "run P (numeral k) (x # xs) = (if P x then Suc (run P (pred_numeral k) xs) else 0)"
  "run P (numeral k) [] = 0"
  by (simp_all add: numeral_eq_Suc)

lemma run_le_bound: "run P n xs \<le> n"
  by (induction P n xs rule: run.induct) auto

lemma run_le_length: "run P n xs \<le> length xs"
  by (induction P n xs rule: run.induct) auto

lemma run_holds: "i < run P n xs \<Longrightarrow> P (xs ! i)"
proof (induction P n xs arbitrary: i rule: run.induct)
  case (3 P n x xs)
  then show ?case by (cases i) (auto split: if_splits)
qed auto

lemma run_full: "n \<le> length xs \<Longrightarrow> \<forall>i<n. P (xs ! i) \<Longrightarrow> run P n xs = n"
proof (induction P n xs rule: run.induct)
  case (3 P n x xs)
  from 3(3) have "P x" by fastforce
  moreover have "\<forall>i<n. P (xs ! i)" using 3(3) by fastforce
  ultimately show ?case using 3 by simp
qed auto

lemma last_cu_append: "last_cu (last_cu p s) t = last_cu p (s @ t)"
  by (simp add: last_cu_def)

lemma advance_last_cu: "k \<le> length xs \<Longrightarrow> advance p xs k = last_cu p (take k xs)"
  by (cases k) (auto simp: advance_def last_cu_def last_conv_nth min_def)

lemma last_cu_Cons: "last_cu p (x # t) = last_cu (Some x) t"
  by (simp add: last_cu_def)

lemma last_cu_Nil: "last_cu p [] = p"
  by (simp add: last_cu_def)

lemma ms_Rep_iff:
  "(p', xs', c') \<in> set (ms ic (Rep cl lo hi g) (p, xs, c)) \<longleftrightarrow>
     (\<exists>k. lo \<le> k \<and> k \<le> run (in_class ic cl) (case hi of None \<Rightarrow> length xs | Some h \<Rightarrow> h) xs
          \<and> p' = advance p xs k \<and> xs' = drop k xs \<and> c' = c)"
  by (cases g) (auto simp: Let_def less_Suc_eq_le simp del: upt_Suc)

lemma ms_pos:
  "(p', xs', c') \<in> set (ms ic r (p, xs, c)) \<Longrightarrow> \<exists>t. xs = t @ xs' \<and> p' = last_cu p t"
proof (induction r arbitrary: p xs c p' xs' c')
  case (Cls cl)
  then show ?case
    by (cases xs) (auto simp: last_cu_def split: if_splits intro: exI[of _ "[hd xs]"])
next
  case (Rep cl lo hi greedy)
  then obtain k where k: "k \<le> run (in_class ic cl) (case hi of None \<Rightarrow> length xs | Some h \<Rightarrow> h) xs"
    and eq: "p' = advance p xs k" "xs' = drop k xs"
    unfolding ms_Rep_iff by blast
  have "k \<le> length xs" using k run_le_length le_trans by blast
  then show ?case using eq advance_last_cu[of k xs p]
    by (intro exI[of _ "take k xs"]) simp
next
  case (Seq a b)
  then obtain q ys d where 1: "(q, ys, d) \<in> set (ms ic a (p, xs, c))"
    and 2: "(p', xs', c') \<in> set (ms ic b (q, ys, d))" by auto
  from Seq.IH(1)[OF 1] obtain t where t: "xs = t @ ys" "q = last_cu p t" by blast
  from Seq.IH(2)[OF 2] obtain u where u: "ys = u @ xs'" "p' = last_cu q u" by blast
  show ?case using t u by (intro exI[of _ "t @ u"]) (simp add: last_cu_append)
next
  case (Alt a b)
  then show ?case by auto
next
  case (Grp g r)
  then obtain d where "(p', xs', d) \<in> set (ms ic r (p, xs, c))" by auto
  from Grp.IH[OF this] show ?case .
qed (auto simp: last_cu_def split: if_splits)

lemma ms_no_grp:
  "no_grp r \<Longrightarrow> (p', xs', c') \<in> set (ms ic r (p, xs, c)) \<Longrightarrow> c' = c"
proof (induction r arbitrary: p xs c p' xs' c')
  case (Cls cl)
  then show ?case by (auto split: list.splits if_splits)
next
  case (Rep cl lo hi greedy)
  then show ?case by (auto simp: ms_Rep_iff simp del: ms.simps(2))
next
  case (Seq a b)
  then show ?case by fastforce
next
  case (Alt a b)
  then show ?case by fastforce
qed (auto split: if_splits)

lemma ms_binds:
  "(p', xs', c') \<in> set (ms ic r (p, xs, c)) \<Longrightarrow> binds g r \<or> map_of c g \<noteq> None
     \<Longrightarrow> map_of c' g \<noteq> None"
proof (induction r arbitrary: p xs c p' xs' c')
  case (Cls cl)
  then show ?case by (auto split: list.splits if_splits)
next
  case (Rep cl lo hi greedy)
  then show ?case by (auto simp: ms_Rep_iff simp del: ms.simps(2))
next
  case (Seq a b)
  then obtain q ys d where 1: "(q, ys, d) \<in> set (ms ic a (p, xs, c))"
    and 2: "(p', xs', c') \<in> set (ms ic b (q, ys, d))" by auto
  show ?case
  proof (cases "binds g b")
    case True
    then show ?thesis using Seq.IH(2)[OF 2] by simp
  next
    case False
    then have "binds g a \<or> map_of c g \<noteq> None" using Seq.prems(2) by auto
    then have "map_of d g \<noteq> None" using Seq.IH(1)[OF 1] by simp
    then show ?thesis using Seq.IH(2)[OF 2] by simp
  qed
next
  case (Alt a b)
  then show ?case by fastforce
next
  case (Grp h r)
  then obtain d where 1: "(p', xs', d) \<in> set (ms ic r (p, xs, c))"
    and c': "c' = (h, take (length xs - length xs') xs) # d" by auto
  show ?case
  proof (cases "g = h")
    case True
    then show ?thesis using c' by simp
  next
    case False
    then have "binds g r \<or> map_of c g \<noteq> None" using Grp.prems(2) by auto
    then show ?thesis using Grp.IH[OF 1] c' False by simp
  qed
qed (auto split: if_splits)

lemma match_here_SomeD:
  "match_here ic r p xs = Some m \<Longrightarrow> \<exists>p' xs'. (p', xs', m) \<in> set (ms ic r (p, xs, []))"
  by (auto simp: match_here_def split: list.splits)

lemma match_here_None_iff: "match_here ic r p xs = None \<longleftrightarrow> ms ic r (p, xs, []) = []"
  by (auto simp: match_here_def split: list.splits)

lemma search_SomeD:
  "search ic r p s = Some m \<Longrightarrow> \<exists>t ys. s = t @ ys \<and> match_here ic r (last_cu p t) ys = Some m"
proof (induction s arbitrary: p)
  case Nil
  then show ?case by (auto simp: last_cu_def)
next
  case (Cons x s)
  show ?case
  proof (cases "match_here ic r p (x # s)")
    case None
    then have "search ic r (Some x) s = Some m" using Cons.prems by simp
    from Cons.IH[OF this] obtain t ys where "s = t @ ys" "match_here ic r (last_cu (Some x) t) ys = Some m"
      by blast
    then have "x # s = (x # t) @ ys \<and> match_here ic r (last_cu p (x # t)) ys = Some m"
      by (simp add: last_cu_Cons)
    then show ?thesis by blast
  next
    case (Some a)
    then have "a = m" using Cons.prems by simp
    then have "x # s = [] @ (x # s) \<and> match_here ic r (last_cu p []) (x # s) = Some m"
      using Some by (simp add: last_cu_Nil)
    then show ?thesis by blast
  qed
qed

lemma search_found:
  "match_here ic r (last_cu p t) ys \<noteq> None \<Longrightarrow> search ic r p (t @ ys) \<noteq> None"
proof (induction t arbitrary: p)
  case Nil
  then show ?case by (cases ys) (auto simp: last_cu_def split: option.splits)
next
  case (Cons x t)
  have "last_cu p (x # t) = last_cu (Some x) t" by (simp add: last_cu_def)
  then have "search ic r (Some x) (t @ ys) \<noteq> None" using Cons by simp
  then show ?case by (auto split: option.splits)
qed

lemma search_skip:
  "no_match_before ic r p pre rest \<Longrightarrow> search ic r p (pre @ rest) = search ic r (last_cu p pre) rest"
proof (induction pre arbitrary: p)
  case Nil
  then show ?case by (simp add: last_cu_def)
next
  case (Cons x pre)
  then have "search ic r (Some x) (pre @ rest) = search ic r (last_cu (Some x) pre) rest" by simp
  moreover have "last_cu p (x # pre) = last_cu (Some x) pre" by (simp add: last_cu_def)
  ultimately show ?case using Cons.prems by simp
qed

lemma rx_match_binds:
  assumes "rx_match ic r s = Some m" "binds g r"
  shows "group m g \<noteq> None"
proof -
  from assms(1) obtain t ys where "match_here ic r (last_cu None t) ys = Some m"
    unfolding rx_match_def using search_SomeD by blast
  then obtain p' xs' where "(p', xs', m) \<in> set (ms ic r (last_cu None t, ys, []))"
    using match_here_SomeD by blast
  from ms_binds[OF this] assms(2) show ?thesis by (simp add: group_def)
qed

lemmas ev = rx_match_def rx_test_def seqs_def lit_def str_def plus_def star_def cc_def cr_def match_here_def in_class_def
  canonicalize_def is_space_def is_digit_def is_word_def advance_def Let_def digit_def space_def
  at_word_def next_cu_def group_def cap_def bind_e_def truthy_def js_or_def tpl_def
  toLowerCase_def toUpperCase_def lower_cu_def upper_cu_def trim_def startsWith_def padStart2_def

lemmas ev_fields = no_json_def extract_book_def step_title_def step_authors_def step_image_def step_description_def
  descSelectors_def details_text_def detailsSelectors_def step_isbn10_def step_isbn13_def isbn10_rx_def isbn13_rx_def
  strip_hyphens_def step_asin_def asinPatterns_def alnum_def asin_valid_def asin_shape_rx_def all_letters_rx_def
  step_publisher_def publisherPatterns_def name_pt_def name_en_def all_digits_rx_def capitalize_def
  step_date_def datePatterns_def date_of_match_def months_def months_pt_def months_en_def two_digits_def month_alt_def
  step_pages_def pagesPatterns_def paginas_def parseInt_def decimal_def
  step_language_def languagePatterns_def languageMap_def step_categories_def categoryMap_def category_accepts_def
  text_of_def attr_of_def empty_book_def blank_page_def details_page_def elem_def

lemma set_ms_seqs_append:
  "set (ms ic (seqs (a @ b)) st) = (\<Union>s\<in>set (ms ic (seqs a) st). set (ms ic (seqs b) s))"
  by (induction a arbitrary: st) (simp_all add: seqs_def)

lemma no_grp_seqs: "list_all no_grp rs \<Longrightarrow> no_grp (seqs rs)"
  by (induction rs) (simp_all add: seqs_def)

lemma no_grp_lit: "list_all no_grp (lit s)"
  by (simp add: lit_def list_all_iff)

lemma ms_Rep_text:
  assumes "(p', xs', c') \<in> set (ms ic (Rep cl lo hi gr) (p, xs, c))"
  shows "c' = c \<and> (\<exists>v. xs = v @ xs' \<and> lo \<le> length v \<and>
             (\<forall>h. hi = Some h \<longrightarrow> length v \<le> h) \<and> (\<forall>x\<in>set v. in_class ic cl x))"
proof -
  let ?n = "run (in_class ic cl) (case hi of None \<Rightarrow> length xs | Some h \<Rightarrow> h) xs"
  from assms obtain k where k: "lo \<le> k" "k \<le> ?n" "xs' = drop k xs" "c' = c"
    unfolding ms_Rep_iff by blast
  have kl: "k \<le> length xs" using k(2) run_le_length le_trans by blast
  have "\<forall>x\<in>set (take k xs). in_class ic cl x"
  proof
    fix x assume "x \<in> set (take k xs)"
    then obtain i where i: "i < k" "x = xs ! i" using kl
      by (auto simp: in_set_conv_nth)
    then have "i < ?n" using k(2) by simp
    then show "in_class ic cl x" using run_holds i(2) by blast
  qed
  moreover have "\<forall>h. hi = Some h \<longrightarrow> k \<le> h"
    using k(2) run_le_bound[of "in_class ic cl" _ xs] by (auto intro: le_trans)
  ultimately have "xs = take k xs @ xs' \<and> lo \<le> length (take k xs) \<and>
      (\<forall>h. hi = Some h \<longrightarrow> length (take k xs) \<le> h) \<and> (\<forall>x\<in>set (take k xs). in_class ic cl x)"
    using k kl by simp
  then show ?thesis using k(4) by blast
qed

lemma ms_Grp_Rep:
  assumes "(p', xs', c') \<in> set (ms ic (Grp g (Rep cl lo hi gr)) (p, xs, c))"
  shows "\<exists>v. c' = (g, v) # c \<and> xs = v @ xs' \<and> lo \<le> length v \<and>
             (\<forall>h. hi = Some h \<longrightarrow> length v \<le> h) \<and> (\<forall>x\<in>set v. in_class ic cl x)"
proof -
  from assms obtain d where in_r: "(p', xs', d) \<in> set (ms ic (Rep cl lo hi gr) (p, xs, c))"
    and c': "c' = (g, take (length xs - length xs') xs) # d"
    by (auto simp del: ms.simps(2))
  from ms_Rep_text[OF in_r] obtain v where v: "d = c" "xs = v @ xs'" "lo \<le> length v"
    "\<forall>h. hi = Some h \<longrightarrow> length v \<le> h" "\<forall>x\<in>set v. in_class ic cl x" by blast
  then have "take (length xs - length xs') xs = v" by simp
  then show ?thesis using c' v by blast
qed

lemma ms_seqs_single: "set (ms ic (seqs [r]) st) = set (ms ic r st)"
  by (simp add: seqs_def)

lemma capture_last_group:
  assumes "rx_match ic (seqs (pre @ [Grp g (Rep cl lo hi gr)])) t = Some m"
    and "list_all no_grp pre"
  shows "\<exists>v. m = [(g, v)] \<and> lo \<le> length v \<and> (\<forall>h. hi = Some h \<longrightarrow> length v \<le> h) \<and>
             (\<forall>x\<in>set v. in_class ic cl x)"
proof -
  from assms(1) obtain u ys where "match_here ic (seqs (pre @ [Grp g (Rep cl lo hi gr)])) (last_cu None u) ys = Some m"
    unfolding rx_match_def using search_SomeD by blast
  then obtain p' xs' where "(p', xs', m) \<in> set (ms ic (seqs (pre @ [Grp g (Rep cl lo hi gr)])) (last_cu None u, ys, []))"
    using match_here_SomeD by blast
  then obtain q zs d where 1: "(q, zs, d) \<in> set (ms ic (seqs pre) (last_cu None u, ys, []))"
    and 2: "(p', xs', m) \<in> set (ms ic (seqs [Grp g (Rep cl lo hi gr)]) (q, zs, d))"
    unfolding set_ms_seqs_append by auto
  have "d = []" using ms_no_grp[OF no_grp_seqs[OF assms(2)] 1] .
  moreover from 2 have "(p', xs', m) \<in> set (ms ic (Grp g (Rep cl lo hi gr)) (q, zs, d))"
    unfolding ms_seqs_single .
  ultimately show ?thesis using ms_Grp_Rep[of p' xs' m ic g cl lo hi gr q zs d] by blast
qed

lemma isbn10_capture:
  assumes "rx_match True isbn10_rx t = Some m"
  shows "\<exists>v. group m 1 = Some v \<and> length v = 10"
proof -
  have ng: "list_all no_grp (lit (str ''ISBN-10'') @ [plus (False, [cc CHR '':'', CSpace])])"
    using no_grp_lit by (simp add: plus_def)
  have "isbn10_rx = seqs ((lit (str ''ISBN-10'') @ [plus (False, [cc CHR '':'', CSpace])]) @
       [Grp 1 (Rep (False, [cr CHR ''0'' CHR ''9'', cc CHR ''X'']) 10 (Some 10) True)])"
    by (simp add: isbn10_rx_def)
  with assms obtain v where "m = [(1, v)]" "10 \<le> length v" "length v \<le> 10"
    using capture_last_group[OF _ ng] by metis
  then show ?thesis by (simp add: group_def)
qed

lemma isbn10_of_nonempty: "isbn10_of t = Some v \<Longrightarrow> length v = 10"
  using isbn10_capture[of t]
  by (auto simp: isbn10_of_def step_isbn10_def empty_book_def split: option.splits)

section \<open>Facts about the steps\<close>

lemmas rx_defs = seqs_def lit_def str_def plus_def star_def

lemma cap_binds: "rx_match ic r s = Some m \<Longrightarrow> binds g r \<Longrightarrow> \<exists>v. cap m g = Inr v"
  using rx_match_binds[of ic r s m g] by (auto simp: cap_def split: option.splits)

lemma publisher_loop_total:
  "\<forall>r\<in>set ps. binds 1 r \<Longrightarrow> \<exists>v. publisher_loop ps t = Inr v"
proof (induction ps)
  case Nil
  then show ?case by simp
next
  case (Cons r ps)
  show ?case
  proof (cases "rx_match True r (toLowerCase t)")
    case None
    then show ?thesis using Cons by simp
  next
    case (Some m)
    then obtain v where "cap m 1 = Inr v" using cap_binds Cons.prems by fastforce
    then show ?thesis using Some Cons by (simp add: bind_e_def Let_def)
  qed
qed

lemma publisherPatterns_bind: "\<forall>r\<in>set publisherPatterns. binds 1 r"
  by (simp add: publisherPatterns_def rx_defs)

lemma date_of_match_total:
  "rx_match ic r s = Some m \<Longrightarrow> binds 1 r \<Longrightarrow> binds 2 r \<Longrightarrow> \<exists>v. date_of_match fmt m = Inr v"
proof -
  assume a: "rx_match ic r s = Some m" "binds 1 r" "binds 2 r"
  obtain v1 v2 where "cap m 1 = Inr v1" "cap m 2 = Inr v2"
    using cap_binds[OF a(1) a(2)] cap_binds[OF a(1) a(3)] by blast
  then show ?thesis by (cases fmt) (simp_all add: date_of_match_def bind_e_def Let_def)
qed

lemma date_loop_total:
  "\<forall>(r, f)\<in>set ps. binds 1 r \<and> binds 2 r \<Longrightarrow> \<exists>v. date_loop ps h = Inr v"
proof (induction ps)
  case Nil
  then show ?case by simp
next
  case (Cons rf ps)
  obtain r f where rf: "rf = (r, f)" by (cases rf)
  show ?case
  proof (cases "rx_match True r h")
    case None
    then show ?thesis using Cons rf by simp
  next
    case (Some m)
    then obtain v where "date_of_match f m = Inr v"
      using date_of_match_total[of True r h m f] Cons.prems rf by auto
    then show ?thesis using Some rf by (simp add: bind_e_def)
  qed
qed

lemma datePatterns_bind: "\<forall>(r, f)\<in>set datePatterns. binds 1 r \<and> binds 2 r"
  by (simp add: datePatterns_def rx_defs)

lemma language_loop_total:
  "\<forall>r\<in>set ps. binds 1 r \<Longrightarrow> \<exists>v. language_loop ps t = Inr v"
proof (induction ps)
  case Nil
  then show ?case by simp
next
  case (Cons r ps)
  then obtain w where w: "language_loop ps t = Inr w" by auto
  show ?case
  proof (cases "rx_match True r t")
    case None
    then show ?thesis using w by simp
  next
    case (Some m)
    then obtain v where "cap m 1 = Inr v" using cap_binds Cons.prems by fastforce
    then show ?thesis using Some w
      by (simp add: bind_e_def Let_def truthy_def split: option.splits)
  qed
qed

lemma languagePatterns_bind: "\<forall>r\<in>set languagePatterns. binds 1 r"
  by (simp add: languagePatterns_def rx_defs)

lemma step_title_upd:
  "step_title d b = b\<lparr>title := (case title_of d of None \<Rightarrow> title b | Some v \<Rightarrow> Some v)\<rparr>"
  by (simp add: title_of_def step_title_def Let_def empty_book_def)

lemma step_authors_upd:
  "step_authors d b = b\<lparr>authors := (case authors_of d of None \<Rightarrow> authors b | Some v \<Rightarrow> Some v)\<rparr>"
  by (simp add: authors_of_def step_authors_def Let_def empty_book_def)

lemma step_image_upd:
  "step_image jk d b = b\<lparr>imageUrl := (case image_of jk d of None \<Rightarrow> imageUrl b | Some v \<Rightarrow> Some v)\<rparr>"
  by (simp add: image_of_def step_image_def Let_def empty_book_def split: option.splits list.splits)

lemma step_description_upd:
  "step_description d b =
     b\<lparr>description := (case description_of d of None \<Rightarrow> description b | Some v \<Rightarrow> Some v)\<rparr>"
  by (simp add: description_of_def step_description_def split: option.splits)

lemma isbn10_rx_binds: "binds 1 isbn10_rx"
  by (simp add: isbn10_rx_def rx_defs)

lemma isbn13_rx_binds: "binds 1 isbn13_rx"
  by (simp add: isbn13_rx_def rx_defs)

lemma step_isbn10_upd:
  "step_isbn10 t b =
     (case isbn10_of t of None \<Rightarrow> b | Some v \<Rightarrow> b\<lparr>isbn10 := Some v, isbn := Some v\<rparr>)"
proof (cases "rx_match True isbn10_rx t")
  case None
  then show ?thesis by (simp add: isbn10_of_def step_isbn10_def empty_book_def)
next
  case (Some m)
  then obtain v where "group m 1 = Some v" using rx_match_binds isbn10_rx_binds by blast
  then show ?thesis using Some by (simp add: isbn10_of_def step_isbn10_def empty_book_def)
qed

lemma step_isbn13_upd:
  "step_isbn13 t b =
     Inr (case isbn13_of t of
            None \<Rightarrow> b
          | Some v \<Rightarrow> if truthy (isbn b) then b\<lparr>isbn13 := Some v\<rparr>
                      else b\<lparr>isbn13 := Some v, isbn := Some v\<rparr>)"
proof (cases "rx_match True isbn13_rx t")
  case None
  then show ?thesis by (simp add: isbn13_of_def step_isbn13_def empty_book_def)
next
  case (Some m)
  then obtain v where "cap m 1 = Inr v" using cap_binds isbn13_rx_binds by blast
  then show ?thesis using Some
    by (simp add: isbn13_of_def step_isbn13_def empty_book_def bind_e_def Let_def truthy_def)
qed

lemma step_asin_upd:
  "step_asin t b = b\<lparr>asin := (case asin_of t of None \<Rightarrow> asin b | Some v \<Rightarrow> Some v)\<rparr>"
  by (simp add: asin_of_def step_asin_def split: option.splits)

lemma step_publisher_upd:
  "step_publisher t b =
     Inr (b\<lparr>publisher := (case publisher_of t of None \<Rightarrow> publisher b | Some v \<Rightarrow> Some v)\<rparr>)"
proof -
  obtain r where "publisher_loop publisherPatterns t = Inr r"
    using publisher_loop_total publisherPatterns_bind by blast
  then show ?thesis
    by (simp add: publisher_of_def step_publisher_def resolved_def bind_e_def split: option.splits)
qed

lemma step_date_upd:
  "step_date h b =
     Inr (b\<lparr>publishedDate := (case date_of h of None \<Rightarrow> publishedDate b | Some v \<Rightarrow> Some v)\<rparr>)"
proof -
  obtain r where "date_loop datePatterns h = Inr r"
    using date_loop_total datePatterns_bind by blast
  then show ?thesis
    by (simp add: date_of_def step_date_def resolved_def bind_e_def split: option.splits)
qed

lemma step_pages_upd:
  "step_pages t b = b\<lparr>pageCount := (case pages_of t of None \<Rightarrow> pageCount b | Some v \<Rightarrow> Some v)\<rparr>"
  by (simp add: pages_of_def step_pages_def split: option.splits)

lemma step_language_upd:
  "step_language t b =
     Inr (b\<lparr>language := (case language_of t of None \<Rightarrow> language b | Some v \<Rightarrow> Some v)\<rparr>)"
proof -
  obtain r where "language_loop languagePatterns t = Inr r"
    using language_loop_total languagePatterns_bind by blast
  then show ?thesis
    by (simp add: language_of_def step_language_def resolved_def bind_e_def split: option.splits)
qed

lemma step_categories_upd:
  "step_categories d b =
     b\<lparr>categories := (case categories_of d of None \<Rightarrow> categories b | Some v \<Rightarrow> Some v)\<rparr>"
  by (simp add: categories_of_def step_categories_def Let_def empty_book_def)

lemmas step_upds = step_title_upd step_authors_upd step_image_upd step_description_upd
  step_isbn10_upd step_isbn13_upd step_asin_upd step_publisher_upd step_date_upd
  step_pages_upd step_language_upd step_categories_upd

lemma extract_book_record:
  "extract_book jk d =
     Inr \<lparr>title = title_of d, authors = authors_of d, imageUrl = image_of jk d,
          description = description_of d, isbn10 = isbn10_of (details_text d),
          isbn = (case isbn10_of (details_text d) of
                    None \<Rightarrow> isbn13_of (details_text d)
                  | Some v \<Rightarrow> if v \<noteq> [] then Some v
                              else (case isbn13_of (details_text d) of
                                      None \<Rightarrow> Some v | Some w \<Rightarrow> Some w)),
          isbn13 = isbn13_of (details_text d), asin = asin_of (details_text d),
          publisher = publisher_of (details_text d), publishedDate = date_of (html d),
          pageCount = pages_of (details_text d), language = language_of (details_text d),
          categories = categories_of d\<rparr>"
  by (simp add: extract_book_def Let_def bind_e_def step_upds empty_book_def truthy_def
        split: option.splits)

lemma search_Bos_later: "search ic (Seq Bos r) (Some x) xs = None"
  by (induction xs arbitrary: x) (simp_all add: match_here_def)

lemma rx_match_Bos: "rx_match ic (Seq Bos r) s = match_here ic (Seq Bos r) None s"
  by (cases s) (simp_all add: rx_match_def search_Bos_later split: option.splits)

lemma run_all_full: "\<forall>x\<in>set xs. P x \<Longrightarrow> length xs \<le> n \<Longrightarrow> run P n xs = length xs"
  by (induction P n xs rule: run.induct) auto

lemma ms_Eos_Eps_nonempty: "ms ic (Seq Eos Eps) st \<noteq> [] \<longleftrightarrow> fst (snd st) = []"
  by (cases st) auto

lemma ms_Bos_start: "ms ic (Seq Bos r) (None, s, c) = ms ic r (None, s, c)"
  by simp

lemma ms_Seq_nonempty:
  "ms ic (Seq a b) st \<noteq> [] \<longleftrightarrow> (\<exists>st'\<in>set (ms ic a st). ms ic b st' \<noteq> [])"
  by auto

lemma test_anchored_Rep:
  "rx_test ic (seqs [Bos, Rep cl lo hi True, Eos]) s \<longleftrightarrow>
     lo \<le> length s \<and> (\<forall>h. hi = Some h \<longrightarrow> length s \<le> h) \<and> (\<forall>x\<in>set s. in_class ic cl x)"
proof -
  let ?b = "case hi of None \<Rightarrow> length s | Some h \<Rightarrow> h"
  let ?n = "run (in_class ic cl) ?b s"
  have "rx_test ic (seqs [Bos, Rep cl lo hi True, Eos]) s \<longleftrightarrow>
          ms ic (Seq Bos (Seq (Rep cl lo hi True) (Seq Eos Eps))) (None, s, []) \<noteq> []"
    by (simp add: rx_test_def seqs_def rx_match_Bos match_here_None_iff del: ms.simps)
  also have "\<dots> \<longleftrightarrow> (\<exists>st\<in>set (ms ic (Rep cl lo hi True) (None, s, [])). fst (snd st) = [])"
    by (simp only: ms_Bos_start ms_Seq_nonempty[of _ "Rep cl lo hi True"] ms_Eos_Eps_nonempty)
  also have "\<dots> \<longleftrightarrow> (\<exists>p' xs' c'. (p', xs', c') \<in> set (ms ic (Rep cl lo hi True) (None, s, [])) \<and> xs' = [])"
    by force
  also have "\<dots> \<longleftrightarrow> (\<exists>k. lo \<le> k \<and> k \<le> ?n \<and> drop k s = [])"
    unfolding ms_Rep_iff by auto
  also have "\<dots> \<longleftrightarrow> lo \<le> length s \<and> (\<forall>h. hi = Some h \<longrightarrow> length s \<le> h) \<and> (\<forall>x\<in>set s. in_class ic cl x)"
  proof
    assume "\<exists>k. lo \<le> k \<and> k \<le> ?n \<and> drop k s = []"
    then obtain k where k: "lo \<le> k" "k \<le> ?n" "length s \<le> k" by auto
    have nl: "?n \<le> length s" by (rule run_le_length)
    then have n: "?n = length s" "k = length s" using k by auto
    have "\<forall>x\<in>set s. in_class ic cl x"
    proof
      fix x assume "x \<in> set s"
      then obtain i where "i < length s" "x = s ! i" by (auto simp: in_set_conv_nth)
      then show "in_class ic cl x" using run_holds[of i "in_class ic cl" ?b s] n by simp
    qed
    moreover have "\<forall>h. hi = Some h \<longrightarrow> length s \<le> h"
      using run_le_bound[of "in_class ic cl" ?b s] n by auto
    ultimately show "lo \<le> length s \<and> (\<forall>h. hi = Some h \<longrightarrow> length s \<le> h) \<and> (\<forall>x\<in>set s. in_class ic cl x)"
      using k n by simp
  next
    assume a: "lo \<le> length s \<and> (\<forall>h. hi = Some h \<longrightarrow> length s \<le> h) \<and> (\<forall>x\<in>set s. in_class ic cl x)"
    then have "length s \<le> ?b" by (cases hi) auto
    then have "?n = length s" using a run_all_full by blast
    then show "\<exists>k. lo \<le> k \<and> k \<le> ?n \<and> drop k s = []" using a by (intro exI[of _ "length s"]) simp
  qed
  finally show ?thesis .
qed

lemma in_class_alnum: "in_class False alnum x \<longleftrightarrow> (65 \<le> x \<and> x \<le> 90) \<or> (48 \<le> x \<and> x \<le> 57)"
  by (simp add: in_class_def alnum_def cr_def)

lemma in_class_AZ: "in_class False (False, [cr CHR ''A'' CHR ''Z'']) x \<longleftrightarrow> 65 \<le> x \<and> x \<le> 90"
  by (simp add: in_class_def cr_def)

lemma asin_valid_iff:
  "asin_valid a \<longleftrightarrow>
     length a = 10 \<and> (\<forall>x\<in>set a. (65 \<le> x \<and> x \<le> 90) \<or> (48 \<le> x \<and> x \<le> 57)) \<and>
     \<not> (\<forall>x\<in>set a. 65 \<le> x \<and> x \<le> 90)"
  unfolding asin_valid_def asin_shape_rx_def all_letters_rx_def plus_def test_anchored_Rep
    in_class_alnum in_class_AZ
  by auto

lemma asin_loop_valid: "asin_loop ps t = Some a \<Longrightarrow> asin_valid a"
  by (induction ps) (auto simp: Let_def split: option.splits if_splits)

lemma suffix_pattern_matches:
  assumes "rx_match ic (seqs (a @ b)) t \<noteq> None" and "list_all no_grp a"
  shows "rx_match ic (seqs b) t \<noteq> None"
proof -
  from assms(1) obtain m where "rx_match ic (seqs (a @ b)) t = Some m" by auto
  then obtain u ys where t: "t = u @ ys"
    and "match_here ic (seqs (a @ b)) (last_cu None u) ys = Some m"
    unfolding rx_match_def using search_SomeD by blast
  then obtain p' xs' where "(p', xs', m) \<in> set (ms ic (seqs (a @ b)) (last_cu None u, ys, []))"
    using match_here_SomeD by blast
  then obtain q zs d where 1: "(q, zs, d) \<in> set (ms ic (seqs a) (last_cu None u, ys, []))"
    and 2: "(p', xs', m) \<in> set (ms ic (seqs b) (q, zs, d))"
    unfolding set_ms_seqs_append by auto
  have d: "d = []" using ms_no_grp[OF no_grp_seqs[OF assms(2)] 1] .
  from ms_pos[OF 1] obtain w where w: "ys = w @ zs" "q = last_cu (last_cu None u) w" by blast
  then have q: "q = last_cu None (u @ w)" by (simp add: last_cu_append)
  from 2 d have "ms ic (seqs b) (q, zs, []) \<noteq> []" by auto
  then have "match_here ic (seqs b) (last_cu None (u @ w)) zs \<noteq> None"
    using q by (simp add: match_here_None_iff)
  from search_found[OF this] show ?thesis using t w by (simp add: rx_match_def)
qed

lemma comprimento_implies_paginas:
  "rx_match True (pagesPatterns ! 1) t \<noteq> None \<Longrightarrow> rx_match True (pagesPatterns ! 0) t \<noteq> None"
proof -
  assume a: "rx_match True (pagesPatterns ! 1) t \<noteq> None"
  have ng: "list_all no_grp (lit (str ''Comprimento'') @ [plus (False, [cc CHR '':'', CSpace])])"
    using no_grp_lit by (simp add: plus_def)
  have "pagesPatterns ! 1 = seqs ((lit (str ''Comprimento'') @ [plus (False, [cc CHR '':'', CSpace])]) @
          ([Grp 1 (plus digit), star space] @ lit paginas))"
    by (simp add: pagesPatterns_def)
  moreover have "pagesPatterns ! 0 = seqs ([Grp 1 (plus digit), star space] @ lit paginas)"
    by (simp add: pagesPatterns_def)
  ultimately show ?thesis using suffix_pattern_matches[OF _ ng] a by metis
qed

lemma isbn13_here:
  "match_here True isbn13_rx q (str ''ISBN-13: 978-85-5651-266-6'' @ post)
     = Some [(1, str ''978-85-5651-266-6'')]"
  by (simp add: isbn13_rx_def ev)

lemma isbn13_first_match:
  assumes "no_match_before True isbn13_rx None pre (str ''ISBN-13: 978-85-5651-266-6'' @ post)"
  shows "rx_match True isbn13_rx (pre @ str ''ISBN-13: 978-85-5651-266-6'' @ post)
           = Some [(1, str ''978-85-5651-266-6'')]"
proof -
  have "search True isbn13_rx (last_cu None pre) (str ''ISBN-13: 978-85-5651-266-6'' @ post)
          = Some [(1, str ''978-85-5651-266-6'')]"
    using isbn13_here[of "last_cu None pre" post] by (simp add: str_def)
  then show ?thesis using search_skip[OF assms] by (simp add: rx_match_def)
qed


lemma set_category_entries:
  "set (category_entries m n cats) = set cats \<union> {v. \<exists>k. (k, v) \<in> set m \<and> js_includes n k}"
  by (induction m n cats rule: category_entries.induct) auto

lemma distinct_category_entries:
  "distinct cats \<Longrightarrow> distinct (category_entries m n cats)"
  by (induction m n cats rule: category_entries.induct) auto

lemma set_categories_each:
  "set (categories_each els cats) =
     set cats \<union> {v. \<exists>el\<in>set els. category_accepts (trim (textContent el)) \<and>
                      (\<exists>k. (k, v) \<in> set categoryMap \<and>
                           js_includes (toLowerCase (trim (textContent el))) k)}"
  by (induction els cats rule: categories_each.induct)
     (auto simp: Let_def set_category_entries)

lemma distinct_categories_each:
  "distinct cats \<Longrightarrow> distinct (categories_each els cats)"
  by (induction els cats rule: categories_each.induct)
     (auto simp: Let_def distinct_category_entries)

lemma categories_of_eq:
  "categories_of d =
     (let cats = categories_each
                   (select d ''#wayfinding-breadcrumbs_feature_div a, .a-breadcrumb a'') []
      in if cats = [] then None else Some cats)"
  by (simp add: categories_of_def step_categories_def Let_def empty_book_def)

lemma desc_loop_none: "\<forall>sel\<in>set sels. select d sel = [] \<Longrightarrow> desc_loop d sels = None"
  by (induction sels) (simp_all add: text_of_def trim_def)

lemma asin_loop_none: "\<forall>r\<in>set ps. rx_match True r t = None \<Longrightarrow> asin_loop ps t = None"
  by (induction ps) simp_all

lemma publisher_loop_none:
  "\<forall>r\<in>set ps. rx_match True r (toLowerCase t) = None \<Longrightarrow> publisher_loop ps t = Inr None"
  by (induction ps) simp_all

lemma date_loop_none:
  "\<forall>(r, f)\<in>set ps. rx_match True r h = None \<Longrightarrow> date_loop ps h = Inr None"
  by (induction ps) auto

lemma pages_loop_none: "\<forall>r\<in>set ps. rx_match True r t = None \<Longrightarrow> pages_loop ps t = None"
  by (induction ps) simp_all

lemma language_loop_none:
  "\<forall>r\<in>set ps. rx_match True r t = None \<Longrightarrow> language_loop ps t = Inr None"
  by (induction ps) simp_all




lemma in_class_digit: "in_class ic digit = is_digit"
  by (rule ext) (simp add: in_class_def digit_def)

lemma lang_digits:
  "lang ic (Rep digit lo (Some hi) gr) t \<longleftrightarrow> lo \<le> length t \<and> length t \<le> hi \<and> list_all is_digit t"
  by (simp add: in_class_digit)

















section \<open>The claims\<close>



text \<open>
  C4. The claim has four date grammars, the third of them numeric (D/M/Y with the
  separators "/", "-" or "."), as the README lists them. \<open>datePatterns\<close> has three
  entries, none of them numeric: on a page whose markup is "05/08/2025" the README's
  numeric expression matches, and the parser sets no publishedDate.
\<close>

theorem C4_numeric_date_not_tried:
  "map snd datePatterns = [BrShort, BrLong, En] \<and>
   rx_match False numeric_date_rx (str ''05/08/2025'')
     = Some [(3, str ''2025''), (2, str ''08''), (1, str ''05'')] \<and>
   (\<exists>b. extract_book jk (blank_page (str ''05/08/2025'')) = Inr b \<and> publishedDate b = None)"
  by (simp add: numeric_date_rx_def ev_fields ev)

text \<open>
  C1. In the record of every document: if the key isbn is there, isbn is isbn10 when
  isbn10 is there, and isbn13 otherwise; when neither isbn10 nor isbn13 was found,
  isbn is absent.
\<close>

theorem C1_isbn_invariant:
  "\<exists>b. extract_book jk d = Inr b \<and>
       (isbn b \<noteq> None \<longrightarrow>
          (isbn10 b \<noteq> None \<longrightarrow> isbn b = isbn10 b) \<and> (isbn10 b = None \<longrightarrow> isbn b = isbn13 b)) \<and>
       (isbn10 b = None \<and> isbn13 b = None \<longrightarrow> isbn b = None)"
  using isbn10_of_nonempty[of "details_text d"]
  by (auto simp: extract_book_record split: option.splits)

theorem C1_isbn_invariant_witness:
  "(\<exists>b. extract_book no_json
          (details_page (str ''ISBN-10: 855651266X ISBN-13: 978-8556512666'')) = Inr b
        \<and> isbn b \<noteq> None \<and> isbn10 b \<noteq> None \<and> isbn b = isbn10 b) \<and>
   (\<exists>b. extract_book no_json (details_page (str ''ISBN-13: 978-8556512666'')) = Inr b
        \<and> isbn b \<noteq> None \<and> isbn10 b = None \<and> isbn b = isbn13 b) \<and>
   (\<exists>b. extract_book no_json (blank_page []) = Inr b
        \<and> isbn10 b = None \<and> isbn13 b = None \<and> isbn b = None)"
  using C1_isbn_invariant[of no_json "details_page (str ''ISBN-10: 855651266X ISBN-13: 978-8556512666'')"]
    C1_isbn_invariant[of no_json "details_page (str ''ISBN-13: 978-8556512666'')"]
    C1_isbn_invariant[of no_json "blank_page []"]
  by (simp add: ev_fields ev)

text \<open>
  C9. When the chosen cover-image attribute starts with "{": if it parses as JSON to an
  object without keys, the record has no imageUrl; the attribute text itself becomes
  the imageUrl only when parsing fails, and the first key does when there is one.
\<close>

theorem C9_empty_json_object_no_image:
  assumes "js_or (attr_of (select d ''#landingImage, #imgBlkFront, #ebooksImgBlkFront'') ''data-old-hires'')
             (js_or (attr_of (select d ''#landingImage, #imgBlkFront, #ebooksImgBlkFront'') ''src'')
                (attr_of (select d ''#landingImage, #imgBlkFront, #ebooksImgBlkFront'')
                   ''data-a-dynamic-image'')) = Some src"
    and "startsWith src (str ''{'')"
  shows "\<exists>b. extract_book json_keys d = Inr b \<and>
           (json_keys src = Some [] \<longrightarrow> imageUrl b = None) \<and>
           imageUrl b = (case json_keys src of
                           None \<Rightarrow> Some src
                         | Some urls \<Rightarrow> (case urls of [] \<Rightarrow> None | u # us \<Rightarrow> Some u))"
proof -
  have "src \<noteq> []" using assms(2) by (auto simp: startsWith_def str_def)
  then have "image_of json_keys d =
      (case json_keys src of
         None \<Rightarrow> Some src
       | Some urls \<Rightarrow> (case urls of [] \<Rightarrow> None | u # us \<Rightarrow> Some u))"
    using assms by (simp add: image_of_def step_image_def empty_book_def split: option.splits list.splits)
  then show ?thesis by (simp add: extract_book_record)
qed

theorem C9_empty_json_object_no_image_witness:
  "js_or (attr_of (select (image_page (str ''{}'')) ''#landingImage, #imgBlkFront, #ebooksImgBlkFront'') ''data-old-hires'')
     (js_or (attr_of (select (image_page (str ''{}'')) ''#landingImage, #imgBlkFront, #ebooksImgBlkFront'') ''src'')
        (attr_of (select (image_page (str ''{}'')) ''#landingImage, #imgBlkFront, #ebooksImgBlkFront'')
           ''data-a-dynamic-image'')) = Some (str ''{}'') \<and>
   startsWith (str ''{}'') (str ''{'') \<and>
   json_empty_object (str ''{}'') = Some [] \<and>
   (\<exists>b. extract_book json_empty_object (image_page (str ''{}'')) = Inr b \<and> imageUrl b = None)"
proof -
  have h1: "js_or (attr_of (select (image_page (str ''{}'')) ''#landingImage, #imgBlkFront, #ebooksImgBlkFront'') ''data-old-hires'')
     (js_or (attr_of (select (image_page (str ''{}'')) ''#landingImage, #imgBlkFront, #ebooksImgBlkFront'') ''src'')
        (attr_of (select (image_page (str ''{}'')) ''#landingImage, #imgBlkFront, #ebooksImgBlkFront'')
           ''data-a-dynamic-image'')) = Some (str ''{}'')"
    by (simp add: image_page_def attr_of_def js_or_def truthy_def str_def)
  have h2: "startsWith (str ''{}'') (str ''{'')" by (simp add: startsWith_def str_def)
  have h3: "json_empty_object (str ''{}'') = Some []" by (simp add: json_empty_object_def)
  from C9_empty_json_object_no_image[OF h1 h2, of json_empty_object] h1 h2 h3
  show ?thesis by auto
qed

text \<open>
  C6. An ASIN in the record has exactly 10 code units, each an upper-case letter or a
  digit, and not all of them letters. The 10 letters "HARDCOVERX" are rejected and
  "B07XNZK4L5" is accepted, in the check and through the whole extraction. When the
  first pattern finds a rejected candidate the second pattern is tried: in
  "xASIN: HARDCOVERX ASIN:B07XNZK4L5." the first pattern captures "HARDCOVERX" and the
  record has the ASIN "B07XNZK4L5" of the second.
\<close>

theorem C6_asin_validation:
  "(\<exists>b. extract_book jk d = Inr b \<and>
        (\<forall>a. asin b = Some a \<longrightarrow>
           length a = 10 \<and> (\<forall>x\<in>set a. (65 \<le> x \<and> x \<le> 90) \<or> (48 \<le> x \<and> x \<le> 57)) \<and>
           \<not> (\<forall>x\<in>set a. 65 \<le> x \<and> x \<le> 90))) \<and>
   \<not> asin_valid (str ''HARDCOVERX'') \<and>
   asin_valid (str ''B07XNZK4L5'') \<and>
   (\<exists>b. extract_book jk (details_page (str ''ASIN: HARDCOVERX'')) = Inr b \<and> asin b = None) \<and>
   (\<exists>b. extract_book jk (details_page (str ''ASIN: B07XNZK4L5'')) = Inr b
        \<and> asin b = Some (str ''B07XNZK4L5'')) \<and>
   rx_match True (asinPatterns ! 0) (str '' xASIN: HARDCOVERX ASIN:B07XNZK4L5.'')
     = Some [(1, str ''HARDCOVERX'')] \<and>
   (\<exists>b. extract_book jk (details_page (str ''xASIN: HARDCOVERX ASIN:B07XNZK4L5.'')) = Inr b
        \<and> asin b = Some (str ''B07XNZK4L5''))"
proof -
  have general: "\<exists>b. extract_book jk d = Inr b \<and>
        (\<forall>a. asin b = Some a \<longrightarrow>
           length a = 10 \<and> (\<forall>x\<in>set a. (65 \<le> x \<and> x \<le> 90) \<or> (48 \<le> x \<and> x \<le> 57)) \<and>
           \<not> (\<forall>x\<in>set a. 65 \<le> x \<and> x \<le> 90))"
    using asin_loop_valid[of asinPatterns "details_text d"]
    by (simp add: extract_book_record asin_of_def asin_valid_iff)
  have v1: "\<not> asin_valid (str ''HARDCOVERX'')"
    by (simp add: asin_valid_iff str_def)
  have v2: "asin_valid (str ''B07XNZK4L5'')"
    by (simp add: asin_valid_iff str_def)
  have e1: "asin_of (details_text (details_page (str ''ASIN: HARDCOVERX''))) = None"
    by (simp add: asin_of_def ev_fields ev)
  have e2: "asin_of (details_text (details_page (str ''ASIN: B07XNZK4L5''))) = Some (str ''B07XNZK4L5'')"
    by (simp add: asin_of_def ev_fields ev)
  have e3: "rx_match True (asinPatterns ! 0) (str '' xASIN: HARDCOVERX ASIN:B07XNZK4L5.'')
     = Some [(1, str ''HARDCOVERX'')]"
    by (simp add: ev_fields ev)
  have e4: "asin_of (details_text (details_page (str ''xASIN: HARDCOVERX ASIN:B07XNZK4L5.''))) = Some (str ''B07XNZK4L5'')"
    by (simp add: asin_of_def ev_fields ev)
  show ?thesis using general v1 v2 e1 e2 e3 e4
    by (simp only: extract_book_record book.simps sum.inject simp_thms ex_simps) 
qed

theorem C6_asin_validation_witness:
  "\<exists>b. extract_book no_json (details_page (str ''ASIN: B07XNZK4L5'')) = Inr b \<and>
       asin b = Some (str ''B07XNZK4L5'') \<and>
       length (str ''B07XNZK4L5'') = 10 \<and>
       (\<forall>x\<in>set (str ''B07XNZK4L5''). (65 \<le> x \<and> x \<le> 90) \<or> (48 \<le> x \<and> x \<le> 57)) \<and>
       \<not> (\<forall>x\<in>set (str ''B07XNZK4L5''). 65 \<le> x \<and> x \<le> 90)"
proof -
  from C6_asin_validation[of no_json "details_page (str ''ASIN: B07XNZK4L5'')"]
  obtain b c where b: "extract_book no_json (details_page (str ''ASIN: B07XNZK4L5'')) = Inr b"
    and g: "\<forall>a. asin b = Some a \<longrightarrow>
           length a = 10 \<and> (\<forall>x\<in>set a. (65 \<le> x \<and> x \<le> 90) \<or> (48 \<le> x \<and> x \<le> 57)) \<and>
           \<not> (\<forall>x\<in>set a. 65 \<le> x \<and> x \<le> 90)"
    and c: "extract_book no_json (details_page (str ''ASIN: B07XNZK4L5'')) = Inr c"
       "asin c = Some (str ''B07XNZK4L5'')"
    by blast
  from b c have "asin b = Some (str ''B07XNZK4L5'')" by simp
  with g b show ?thesis by blast
qed

text \<open>
  C10. The second page-count pattern never decides: a text that it matches is matched
  by the first pattern, which is tried first, so the loop over \<open>pagesPatterns\<close>
  returns what the loop over the list without the second pattern returns, for every
  details text, and so does the record.
\<close>

theorem C10_second_pages_pattern_unreachable:
  "(rx_match True (pagesPatterns ! 1) t \<noteq> None \<longrightarrow> rx_match True (pagesPatterns ! 0) t \<noteq> None) \<and>
   pages_loop pagesPatterns t = pages_loop pagesPatterns_without_second t \<and>
   (\<exists>b. extract_book jk d = Inr b \<and>
        pageCount b = pages_loop pagesPatterns_without_second (details_text d))"
proof -
  obtain p0 p1 p2 where ps: "pagesPatterns = [p0, p1, p2]"
    and ws: "pagesPatterns_without_second = [p0, p2]"
    by (simp add: pagesPatterns_def pagesPatterns_without_second_def)
  have imp: "rx_match True p1 t \<noteq> None \<longrightarrow> rx_match True p0 t \<noteq> None" for t
    using comprimento_implies_paginas[of t] unfolding ps by simp
  have "pages_loop [p0, p1, p2] t = pages_loop [p0, p2] t" for t
    using imp[of t] by (auto split: option.splits)
  then have same: "pages_loop pagesPatterns t = pages_loop pagesPatterns_without_second t" for t
    unfolding ps ws by simp
  have "\<exists>b. extract_book jk d = Inr b \<and>
        pageCount b = pages_loop pagesPatterns_without_second (details_text d)"
    using same[of "details_text d"] by (simp add: extract_book_record pages_of_def)
  moreover have "rx_match True (pagesPatterns ! 1) t \<noteq> None \<longrightarrow> rx_match True (pagesPatterns ! 0) t \<noteq> None"
    using imp[of t] unfolding ps by simp
  ultimately show ?thesis using same[of t] by blast
qed

theorem C10_second_pages_pattern_unreachable_witness:
  "rx_match True (pagesPatterns ! 1) (str ''Comprimento: 320 p'' @ [225] @ str ''ginas'') \<noteq> None \<and>
   rx_match True (pagesPatterns ! 0) (str ''Comprimento: 320 p'' @ [225] @ str ''ginas'') \<noteq> None \<and>
   pages_loop pagesPatterns_without_second (str ''Comprimento: 320 p'' @ [225] @ str ''ginas'')
     = Some (Number 320)"
proof -
  have m: "rx_match True (pagesPatterns ! 1) (str ''Comprimento: 320 p'' @ [225] @ str ''ginas'') \<noteq> None"
    by (simp add: ev_fields ev)
  have v: "pages_loop pagesPatterns (str ''Comprimento: 320 p'' @ [225] @ str ''ginas'') = Some (Number 320)"
    by (simp add: ev_fields ev)
  from C10_second_pages_pattern_unreachable[of "str ''Comprimento: 320 p'' @ [225] @ str ''ginas''" no_json "blank_page []"] m v
  show ?thesis by simp
qed

text \<open>
  C7, as stated, at a counterexample: a details text that contains
  "ISBN-13: 978-85-5651-266-6" after another ISBN-13 label. The match is the leftmost
  one, so isbn13 and isbn are "0000000000000".
\<close>

theorem C7_earlier_label_counterexample:
  "extract_book no_json
     (details_page (str ''ISBN-13: 000-00-0000-000-0 ISBN-13: 978-85-5651-266-6''))
   = Inr \<lparr>title = None, authors = None, imageUrl = None, description = None,
          isbn10 = None, isbn = Some (str ''0000000000000''),
          isbn13 = Some (str ''0000000000000''), asin = None, publisher = None,
          publishedDate = None, pageCount = None, language = None, categories = None\<rparr>"
  by (simp add: ev_fields ev)

text \<open>
  C7, amended. For every details text in which no match of the ISBN-13 pattern starts
  before an occurrence of "ISBN-13: 978-85-5651-266-6", the record has isbn13
  "9788556512666" (the 17 captured code units without their hyphens), and when the
  ISBN-10 pattern has no match in that text, isbn is that value.
\<close>

theorem C7_isbn13_first_occurrence:
  assumes "details_text d = pre @ str ''ISBN-13: 978-85-5651-266-6'' @ post"
    and "no_match_before True isbn13_rx None pre (str ''ISBN-13: 978-85-5651-266-6'' @ post)"
  shows "\<exists>b. extract_book jk d = Inr b \<and> isbn13 b = Some (str ''9788556512666'') \<and>
           (rx_match True isbn10_rx (details_text d) = None \<longrightarrow>
              isbn b = Some (str ''9788556512666''))"
proof -
  have "rx_match True isbn13_rx (details_text d) = Some [(1, str ''978-85-5651-266-6'')]"
    using isbn13_first_match[OF assms(2)] assms(1) by simp
  then have 13: "isbn13_of (details_text d) = Some (str ''9788556512666'')"
    by (simp add: isbn13_of_def step_isbn13_def cap_def group_def bind_e_def strip_hyphens_def
          str_def empty_book_def truthy_def Let_def)
  have "rx_match True isbn10_rx (details_text d) = None \<Longrightarrow> isbn10_of (details_text d) = None"
    by (simp add: isbn10_of_def step_isbn10_def empty_book_def)
  then show ?thesis using 13 by (auto simp: extract_book_record)
qed

theorem C7_isbn13_first_occurrence_witness:
  "details_text (details_page (str ''Detalhes ISBN-13: 978-85-5651-266-6 Editora''))
     = str '' Detalhes '' @ str ''ISBN-13: 978-85-5651-266-6'' @ str '' Editora'' \<and>
   no_match_before True isbn13_rx None (str '' Detalhes '')
     (str ''ISBN-13: 978-85-5651-266-6'' @ str '' Editora'') \<and>
   rx_match True isbn10_rx
     (details_text (details_page (str ''Detalhes ISBN-13: 978-85-5651-266-6 Editora''))) = None \<and>
   (\<exists>b. extract_book no_json (details_page (str ''Detalhes ISBN-13: 978-85-5651-266-6 Editora''))
          = Inr b \<and>
        isbn13 b = Some (str ''9788556512666'') \<and> isbn b = Some (str ''9788556512666''))"
proof -
  have h1: "details_text (details_page (str ''Detalhes ISBN-13: 978-85-5651-266-6 Editora''))
     = str '' Detalhes '' @ str ''ISBN-13: 978-85-5651-266-6'' @ str '' Editora''"
    by (simp add: ev_fields ev)
  have h2: "no_match_before True isbn13_rx None (str '' Detalhes '')
     (str ''ISBN-13: 978-85-5651-266-6'' @ str '' Editora'')"
    by (simp add: ev_fields ev)
  have h3: "rx_match True isbn10_rx
     (details_text (details_page (str ''Detalhes ISBN-13: 978-85-5651-266-6 Editora''))) = None"
    by (simp add: ev_fields ev)
  from C7_isbn13_first_occurrence[OF h1 h2, of no_json] h1 h2 h3 show ?thesis by auto
qed



text \<open>
  C8, as stated, at a counterexample: the breadcrumb text "livros de fic..o". Its
  lower-cased text contains "livros", and the node is accepted: the code looks for
  "Livros", with a capital, in the text as it is.
\<close>

theorem C8_lowercase_livros_counterexample:
  "extract_book no_json (breadcrumb_page [str ''livros de fic'' @ [231, 227] @ str ''o''])
     = Inr \<lparr>title = None, authors = None, imageUrl = None, description = None,
            isbn10 = None, isbn = None, isbn13 = None, asin = None, publisher = None,
            publishedDate = None, pageCount = None, language = None,
            categories = Some [str ''Fiction'']\<rparr> \<and>
   js_includes (toLowerCase (trim (str ''livros de fic'' @ [231, 227] @ str ''o''))) (str ''livros'')"
  by (simp add: breadcrumb_page_def ev_fields ev)

text \<open>
  C8, amended. A category is in the record exactly when some breadcrumb node has a
  trimmed text of more than 3 and fewer than 50 code units that does not contain
  "Livros" (as written, with the capital), whose lower-cased text contains none of
  "home", "kindle", "store", and whose lower-cased text contains a keyword of that
  category in \<open>categoryMap\<close>; the list has no duplicates. The nodes "Livros",
  "Fic..o", "Romance e Fic..o" give the categories "Fiction", "Romance".
\<close>

theorem C8_categories_filter:
  "(\<exists>b. extract_book jk d = Inr b \<and>
        (\<forall>c. (\<exists>cs. categories b = Some cs \<and> c \<in> set cs) \<longleftrightarrow>
             (\<exists>el\<in>set (select d ''#wayfinding-breadcrumbs_feature_div a, .a-breadcrumb a'').
                3 < length (trim (textContent el)) \<and> length (trim (textContent el)) < 50 \<and>
                \<not> js_includes (trim (textContent el)) (str ''Livros'') \<and>
                \<not> js_includes (toLowerCase (trim (textContent el))) (str ''home'') \<and>
                \<not> js_includes (toLowerCase (trim (textContent el))) (str ''kindle'') \<and>
                \<not> js_includes (toLowerCase (trim (textContent el))) (str ''store'') \<and>
                (\<exists>k. (k, c) \<in> set categoryMap \<and>
                     js_includes (toLowerCase (trim (textContent el))) k))) \<and>
        (\<forall>cs. categories b = Some cs \<longrightarrow> distinct cs)) \<and>
   (\<exists>b. extract_book jk
          (breadcrumb_page [str ''Livros'', str ''Fic'' @ [231, 227] @ str ''o'',
                            str ''Romance e Fic'' @ [231, 227] @ str ''o'']) = Inr b \<and>
        categories b = Some [str ''Fiction'', str ''Romance''])"
proof -
  let ?els = "select d ''#wayfinding-breadcrumbs_feature_div a, .a-breadcrumb a''"
  have acc: "category_accepts t \<longleftrightarrow>
      3 < length t \<and> length t < 50 \<and> \<not> js_includes t (str ''Livros'') \<and>
      \<not> js_includes (toLowerCase t) (str ''home'') \<and>
      \<not> js_includes (toLowerCase t) (str ''kindle'') \<and>
      \<not> js_includes (toLowerCase t) (str ''store'')" for t
    by (auto simp: category_accepts_def)
  have mem: "(\<exists>cs. categories_of d = Some cs \<and> c \<in> set cs) \<longleftrightarrow>
             (\<exists>el\<in>set ?els.
                3 < length (trim (textContent el)) \<and> length (trim (textContent el)) < 50 \<and>
                \<not> js_includes (trim (textContent el)) (str ''Livros'') \<and>
                \<not> js_includes (toLowerCase (trim (textContent el))) (str ''home'') \<and>
                \<not> js_includes (toLowerCase (trim (textContent el))) (str ''kindle'') \<and>
                \<not> js_includes (toLowerCase (trim (textContent el))) (str ''store'') \<and>
                (\<exists>k. (k, c) \<in> set categoryMap \<and>
                     js_includes (toLowerCase (trim (textContent el))) k))" for c
  proof -
    have "(\<exists>cs. categories_of d = Some cs \<and> c \<in> set cs) \<longleftrightarrow> c \<in> set (categories_each ?els [])"
      by (auto simp: categories_of_eq Let_def)
    then show ?thesis unfolding set_categories_each acc by simp
  qed
  have dist: "categories_of d = Some cs \<Longrightarrow> distinct cs" for cs
    using distinct_categories_each[of "[]" ?els]
    by (auto simp: categories_of_eq Let_def split: if_splits)
  have ex: "categories_of (breadcrumb_page [str ''Livros'', str ''Fic'' @ [231, 227] @ str ''o'',
                            str ''Romance e Fic'' @ [231, 227] @ str ''o''])
             = Some [str ''Fiction'', str ''Romance'']"
    by (simp add: categories_of_eq breadcrumb_page_def ev_fields ev)
  show ?thesis using mem dist ex by (simp add: extract_book_record)
qed

theorem C8_categories_filter_witness:
  "\<exists>b. extract_book no_json
          (breadcrumb_page [str ''Livros'', str ''Fic'' @ [231, 227] @ str ''o'',
                            str ''Romance e Fic'' @ [231, 227] @ str ''o'']) = Inr b \<and>
       categories b = Some [str ''Fiction'', str ''Romance''] \<and>
       distinct [str ''Fiction'', str ''Romance'']"
proof -
  let ?d = "breadcrumb_page [str ''Livros'', str ''Fic'' @ [231, 227] @ str ''o'',
                            str ''Romance e Fic'' @ [231, 227] @ str ''o'']"
  from C8_categories_filter[of no_json ?d]
  obtain b c where b: "extract_book no_json ?d = Inr b"
    and dist: "\<forall>cs. categories b = Some cs \<longrightarrow> distinct cs"
    and c: "extract_book no_json ?d = Inr c" "categories c = Some [str ''Fiction'', str ''Romance'']"
    by blast
  from b c have "categories b = Some [str ''Fiction'', str ''Romance'']" by simp
  with dist b show ?thesis by blast
qed

text \<open>
  C3. For each of the twelve fields: on a document with none of that field's matching
  material (no element for its selectors, or no match of any of its patterns in the
  text it reads) the extraction returns a record, not an error, and the record has no
  value for that field. The document without any element and with empty markup gives
  the empty record, and a response that is ok always gives a record.
\<close>

theorem C3_absent_material_omits_field:
  \<open>(\<exists>b. extract_book jk d = Inr b \<and>
      (select d ''#productTitle, span[id="productTitle"]'' = [] \<longrightarrow> title b = None) \<and>
      (select d ''.author a.a-link-normal, .author .contributorNameID'' = [] \<longrightarrow> authors b = None) \<and>
      (select d ''#landingImage, #imgBlkFront, #ebooksImgBlkFront'' = [] \<longrightarrow> imageUrl b = None) \<and>
      ((\<forall>sel\<in>set descSelectors. select d sel = []) \<longrightarrow> description b = None) \<and>
      (rx_match True isbn10_rx (details_text d) = None \<longrightarrow> isbn10 b = None) \<and>
      (rx_match True isbn13_rx (details_text d) = None \<longrightarrow> isbn13 b = None) \<and>
      ((\<forall>r\<in>set asinPatterns. rx_match True r (details_text d) = None) \<longrightarrow> asin b = None) \<and>
      ((\<forall>r\<in>set publisherPatterns. rx_match True r (toLowerCase (details_text d)) = None)
         \<longrightarrow> publisher b = None) \<and>
      ((\<forall>(r, f)\<in>set datePatterns. rx_match True r (html d) = None) \<longrightarrow> publishedDate b = None) \<and>
      ((\<forall>r\<in>set pagesPatterns. rx_match True r (details_text d) = None) \<longrightarrow> pageCount b = None) \<and>
      ((\<forall>r\<in>set languagePatterns. rx_match True r (details_text d) = None) \<longrightarrow> language b = None) \<and>
      (select d ''#wayfinding-breadcrumbs_feature_div a, .a-breadcrumb a'' = []
         \<longrightarrow> categories b = None)) \<and>
   extract_book jk (blank_page []) = Inr empty_book \<and>
   (\<exists>b. parseAmazonBook load jk (Response True status body) = Inr b)\<close>
proof -
  have t: \<open>select d ''#productTitle, span[id="productTitle"]'' = [] \<Longrightarrow> title_of d = None\<close>
    by (simp add: title_of_def step_title_def text_of_def trim_def empty_book_def)
  have a: "select d ''.author a.a-link-normal, .author .contributorNameID'' = [] \<Longrightarrow> authors_of d = None"
    by (simp add: authors_of_def step_authors_def empty_book_def)
  have i: "select d ''#landingImage, #imgBlkFront, #ebooksImgBlkFront'' = [] \<Longrightarrow> image_of jk d = None"
    by (simp add: image_of_def step_image_def attr_of_def js_or_def truthy_def empty_book_def)
  have de: "\<forall>sel\<in>set descSelectors. select d sel = [] \<Longrightarrow> description_of d = None"
    by (simp add: description_of_def desc_loop_none)
  have i10: "rx_match True isbn10_rx (details_text d) = None \<Longrightarrow> isbn10_of (details_text d) = None"
    by (simp add: isbn10_of_def step_isbn10_def empty_book_def)
  have i13: "rx_match True isbn13_rx (details_text d) = None \<Longrightarrow> isbn13_of (details_text d) = None"
    by (simp add: isbn13_of_def step_isbn13_def empty_book_def)
  have as: "\<forall>r\<in>set asinPatterns. rx_match True r (details_text d) = None \<Longrightarrow> asin_of (details_text d) = None"
    by (simp add: asin_of_def asin_loop_none)
  have pu: "\<forall>r\<in>set publisherPatterns. rx_match True r (toLowerCase (details_text d)) = None
              \<Longrightarrow> publisher_of (details_text d) = None"
    by (simp add: publisher_of_def publisher_loop_none resolved_def)
  have da: "\<forall>(r, f)\<in>set datePatterns. rx_match True r (html d) = None \<Longrightarrow> date_of (html d) = None"
    by (simp add: date_of_def date_loop_none resolved_def)
  have pa: "\<forall>r\<in>set pagesPatterns. rx_match True r (details_text d) = None \<Longrightarrow> pages_of (details_text d) = None"
    by (simp add: pages_of_def pages_loop_none)
  have la: "\<forall>r\<in>set languagePatterns. rx_match True r (details_text d) = None \<Longrightarrow> language_of (details_text d) = None"
    by (simp add: language_of_def language_loop_none resolved_def)
  have ca: "select d ''#wayfinding-breadcrumbs_feature_div a, .a-breadcrumb a'' = [] \<Longrightarrow> categories_of d = None"
    by (simp add: categories_of_eq)
  have blank: "extract_book jk (blank_page []) = Inr empty_book"
    by (simp add: ev_fields ev)
  have top: "\<exists>b. parseAmazonBook load jk (Response True status body) = Inr b"
    by (simp add: parseAmazonBook_def extract_book_record)
  show ?thesis using t a i de i10 i13 as pu da pa la ca blank top
    by (simp add: extract_book_record)
qed

theorem C3_absent_material_omits_field_witness:
  \<open>select (blank_page []) ''#productTitle, span[id="productTitle"]'' = [] \<and>
   select (blank_page []) ''.author a.a-link-normal, .author .contributorNameID'' = [] \<and>
   select (blank_page []) ''#landingImage, #imgBlkFront, #ebooksImgBlkFront'' = [] \<and>
   list_all (\<lambda>sel. select (blank_page []) sel = []) descSelectors \<and>
   rx_match True isbn10_rx (details_text (blank_page [])) = None \<and>
   rx_match True isbn13_rx (details_text (blank_page [])) = None \<and>
   list_all (\<lambda>r. rx_match True r (details_text (blank_page [])) = None) asinPatterns \<and>
   list_all (\<lambda>r. rx_match True r (toLowerCase (details_text (blank_page []))) = None)
     publisherPatterns \<and>
   list_all (\<lambda>(r, f). rx_match True r (html (blank_page [])) = None) datePatterns \<and>
   list_all (\<lambda>r. rx_match True r (details_text (blank_page [])) = None) pagesPatterns \<and>
   list_all (\<lambda>r. rx_match True r (details_text (blank_page [])) = None) languagePatterns \<and>
   select (blank_page []) ''#wayfinding-breadcrumbs_feature_div a, .a-breadcrumb a'' = [] \<and>
   (\<exists>b. extract_book no_json (blank_page []) = Inr b \<and>
        title b = None \<and> authors b = None \<and> imageUrl b = None \<and> description b = None \<and>
        isbn10 b = None \<and> isbn13 b = None \<and> asin b = None \<and> publisher b = None \<and>
        publishedDate b = None \<and> pageCount b = None \<and> language b = None \<and>
        categories b = None)\<close>
proof -
  have sel: "select (blank_page []) s = []" for s
    by (simp add: blank_page_def)
  have dt: "details_text (blank_page []) = []" "html (blank_page []) = []"
    by (simp_all add: ev_fields ev)
  have h5: "rx_match True isbn10_rx [] = None" by (simp add: ev_fields ev)
  have h6: "rx_match True isbn13_rx [] = None" by (simp add: ev_fields ev)
  have h7: "\<forall>r\<in>set asinPatterns. rx_match True r [] = None" by (simp add: ev_fields ev)
  have h8: "\<forall>r\<in>set publisherPatterns. rx_match True r (toLowerCase []) = None"
    by (simp add: ev_fields ev)
  have h9: "\<forall>(r, f)\<in>set datePatterns. rx_match True r [] = None" by (simp add: ev_fields ev)
  have h10: "\<forall>r\<in>set pagesPatterns. rx_match True r [] = None" by (simp add: ev_fields ev)
  have h11: "\<forall>r\<in>set languagePatterns. rx_match True r [] = None" by (simp add: ev_fields ev)
  from conjunct1[OF C3_absent_material_omits_field[of no_json "blank_page []"]]
    sel dt h5 h6 h7 h8 h9 h10 h11
  show ?thesis unfolding list_all_iff by auto
qed

end
